theory Spec2Isabelle
  imports Complex_Main
begin

unbundle bit_operations_syntax

section \<open>Object identities, faults and outcomes\<close>

text \<open>
  Python objects are compared by identity (neither \<^verbatim>\<open>DLLNode\<close> nor the neurode classes
  define \<^verbatim>\<open>__eq__\<close>), so an object is named by its address and lives in a store.
  A neurode address is a \<open>nid\<close>, a list-cell address an \<open>addr\<close>.
\<close>

type_synonym nid = nat
type_synonym addr = nat

text \<open>
  The exceptions the modelled code can raise: \<^verbatim>\<open>ValueError\<close> (\<^verbatim>\<open>list.index\<close> on a missing
  element, the size checks of \<^verbatim>\<open>LayerList\<close>), \<^verbatim>\<open>IndexError\<close> (the list operations),
  \<^verbatim>\<open>KeyError\<close> (a missing key of \<^verbatim>\<open>_weights\<close>) and \<^verbatim>\<open>AttributeError\<close> (a field read
  through \<^verbatim>\<open>None\<close>).
\<close>

datatype error = ValueError | IndexError | KeyError | AttributeError

text \<open>
  A call returns a value and the state it leaves, or raises with the state reached at
  the raise (Python keeps every mutation made before an exception), or exhausts the
  recursion budget of the model.
\<close>

datatype ('a, 's) outcome = Return 'a 's | Raise error 's | Exhausted

section \<open>Neurode.py: MultiLinkNode and Neurode\<close>

datatype Side = UPSTREAM | DOWNSTREAM

text \<open>
  The fields of \<^verbatim>\<open>MultiLinkNode\<close>, \<^verbatim>\<open>Neurode\<close> and \<^verbatim>\<open>BPNeurode\<close> of one object
  (\<^verbatim>\<open>FFBPNeurode\<close> inherits all of them). The three dictionaries keyed by \<^verbatim>\<open>Side\<close> are
  functions of the side, \<^verbatim>\<open>_weights\<close> is a map keyed by neurode identity, integers are
  Python's unbounded ones and floats are idealised as reals.
\<close>

record neurode =
  reporting_nodes :: "Side \<Rightarrow> int"
  reference_value :: "Side \<Rightarrow> int"
  neighbors :: "Side \<Rightarrow> nid list"
  nvalue :: real
  weights :: "nid \<rightharpoonup> real"
  delta :: real

text \<open>\<^verbatim>\<open>FFBPNeurode()\<close>: the chain of \<^verbatim>\<open>__init__\<close> methods.\<close>

definition new_neurode :: neurode where
  "new_neurode =
     \<lparr>reporting_nodes = (\<lambda>_. 0), reference_value = (\<lambda>_. 0), neighbors = (\<lambda>_. []),
      nvalue = 0, weights = Map.empty, delta = 0\<rparr>"

text \<open>\<^verbatim>\<open>list.index(x)\<close>: the first position holding \<open>x\<close>, or \<^verbatim>\<open>ValueError\<close> (here \<open>None\<close>).\<close>

fun list_index :: "'a list \<Rightarrow> 'a \<Rightarrow> nat option" where
  "list_index [] x = None"
| "list_index (y # ys) x = (if y = x then Some 0 else map_option Suc (list_index ys x))"

text \<open>
  \<^verbatim>\<open>random.random()\<close> is the one library call with a result the program does not determine.
  The generator is a sequence \<open>rand\<close> of draws, taken as a parameter, and a position in it.
\<close>

text \<open>\<^verbatim>\<open>Neurode._process_new_neighbor\<close>.\<close>

definition process_new_neighbor ::
  "(nat \<Rightarrow> real) \<Rightarrow> nid \<Rightarrow> Side \<Rightarrow> neurode \<times> nat \<Rightarrow> neurode \<times> nat" where
  "process_new_neighbor rand node side st =
     (case st of (self, pos) \<Rightarrow>
        if side = UPSTREAM
        then (self\<lparr>weights := (weights self)(node \<mapsto> rand pos)\<rparr>, Suc pos)
        else (self, pos))"

text \<open>
  \<^verbatim>\<open>MultiLinkNode.reset_neighbors\<close>: the copy of the list, the loop over \<^verbatim>\<open>nodes\<close>, and
  the reference value \<^verbatim>\<open>2 ** len(nodes) - 1\<close>.
\<close>

fun process_all :: "(nat \<Rightarrow> real) \<Rightarrow> nid list \<Rightarrow> Side \<Rightarrow> neurode \<times> nat \<Rightarrow> neurode \<times> nat" where
  "process_all rand [] side st = st"
| "process_all rand (node # rest) side st =
     process_all rand rest side (process_new_neighbor rand node side st)"

definition reset_neighbors ::
  "(nat \<Rightarrow> real) \<Rightarrow> nid list \<Rightarrow> Side \<Rightarrow> neurode \<times> nat \<Rightarrow> neurode \<times> nat" where
  "reset_neighbors rand nodes side st =
     (case st of (self, pos) \<Rightarrow>
        (case process_all rand nodes side
                (self\<lparr>neighbors := (neighbors self)(side := nodes)\<rparr>, pos) of
           (self', pos') \<Rightarrow>
             (self'\<lparr>reference_value :=
                      (reference_value self')(side := 2 ^ length nodes - 1)\<rparr>, pos')))"

text \<open>
  \<^verbatim>\<open>Neurode._check_in\<close>: the index lookup may raise before anything is written; then the
  bit is or-ed in, and the mask is compared with the reference value and reset on a match.
\<close>

definition check_in :: "neurode \<Rightarrow> nid \<Rightarrow> Side \<Rightarrow> (bool, neurode) outcome" where
  "check_in self node side =
     (case list_index (neighbors self side) node of
        None \<Rightarrow> Raise ValueError self
      | Some node_index \<Rightarrow>
          (let self1 = self\<lparr>reporting_nodes :=
                 (reporting_nodes self)(side := reporting_nodes self side OR push_bit node_index 1)\<rparr>
           in if reporting_nodes self1 side = reference_value self1 side
              then Return True (self1\<lparr>reporting_nodes := (reporting_nodes self1)(side := 0)\<rparr>)
              else Return False self1))"

text \<open>\<^verbatim>\<open>Neurode.get_weight\<close>: \<^verbatim>\<open>self._weights.get(node, 0)\<close>.\<close>

definition get_weight :: "neurode \<Rightarrow> nid \<Rightarrow> real" where
  "get_weight self node = (case weights self node of None \<Rightarrow> 0 | Some w \<Rightarrow> w)"

definition probe_node :: neurode where
  "probe_node =
     new_neurode\<lparr>neighbors := (\<lambda>_. [5, 7]), reference_value := (\<lambda>_. 3),
                 reporting_nodes := (\<lambda>_. 1)\<rparr>"

section \<open>DoublyLinkedList.py\<close>

text \<open>
  A \<^verbatim>\<open>DLLNode\<close> object: its payload and its two links (\<^verbatim>\<open>next\<close>, \<^verbatim>\<open>prev\<close>), \<open>None\<close> for
  Python's \<^verbatim>\<open>None\<close>.
\<close>

record 'a DLLNode =
  data :: 'a
  nxt :: "addr option"
  prv :: "addr option"

text \<open>
  A \<^verbatim>\<open>DoublyLinkedList\<close> object with the store of the cells it can reach: \<open>cells\<close> maps an
  address to the cell there and \<open>fresh\<close> is the next address \<^verbatim>\<open>DLLNode(...)\<close> hands out.
  \<^verbatim>\<open>_head\<close>, \<^verbatim>\<open>_tail\<close> and \<^verbatim>\<open>_curr\<close> are references into the store.
\<close>

record 'a DoublyLinkedList =
  cells :: "addr \<Rightarrow> 'a DLLNode"
  fresh :: addr
  head :: "addr option"
  tail :: "addr option"
  curr :: "addr option"

text \<open>\<^verbatim>\<open>DoublyLinkedList.__init__\<close>, on a given store.\<close>

definition DoublyLinkedList_init ::
  "('a, 'z) DoublyLinkedList_scheme \<Rightarrow> ('a, 'z) DoublyLinkedList_scheme" where
  "DoublyLinkedList_init s = s\<lparr>head := None, tail := None, curr := None\<rparr>"

text \<open>\<^verbatim>\<open>DLLNode(data)\<close>: a new cell at the fresh address, both links \<open>None\<close>.\<close>

definition new_DLLNode ::
  "'a \<Rightarrow> ('a, 'z) DoublyLinkedList_scheme \<Rightarrow> addr \<times> ('a, 'z) DoublyLinkedList_scheme" where
  "new_DLLNode d s =
     (fresh s,
      s\<lparr>cells := (cells s)(fresh s := \<lparr>data = d, nxt = None, prv = None\<rparr>),
        fresh := Suc (fresh s)\<rparr>)"

text \<open>Field writes \<^verbatim>\<open>a.next = p\<close> and \<^verbatim>\<open>a.prev = p\<close> on the cell at address \<open>a\<close>.\<close>

definition set_nxt ::
  "addr \<Rightarrow> addr option \<Rightarrow> ('a, 'z) DoublyLinkedList_scheme \<Rightarrow> ('a, 'z) DoublyLinkedList_scheme" where
  "set_nxt a p s = s\<lparr>cells := (cells s)(a := (cells s a)\<lparr>nxt := p\<rparr>)\<rparr>"

definition set_prv ::
  "addr \<Rightarrow> addr option \<Rightarrow> ('a, 'z) DoublyLinkedList_scheme \<Rightarrow> ('a, 'z) DoublyLinkedList_scheme" where
  "set_prv a p s = s\<lparr>cells := (cells s)(a := (cells s a)\<lparr>prv := p\<rparr>)\<rparr>"

text \<open>\<^verbatim>\<open>add_to_head\<close>.\<close>

definition add_to_head ::
  "'a \<Rightarrow> ('a, 'z) DoublyLinkedList_scheme \<Rightarrow> (unit, ('a, 'z) DoublyLinkedList_scheme) outcome" where
  "add_to_head d s =
     (case new_DLLNode d s of (new_node, s1) \<Rightarrow>
        (let s2 = (case head s1 of
                     None \<Rightarrow> s1\<lparr>head := Some new_node, tail := Some new_node\<rparr>
                   | Some h \<Rightarrow>
                       (set_prv h (Some new_node) (set_nxt new_node (Some h) s1))
                         \<lparr>head := Some new_node\<rparr>)
         in Return () (s2\<lparr>curr := head s2\<rparr>)))"

text \<open>\<^verbatim>\<open>add_after_current\<close>.\<close>

definition add_after_current ::
  "'a \<Rightarrow> ('a, 'z) DoublyLinkedList_scheme \<Rightarrow> (unit, ('a, 'z) DoublyLinkedList_scheme) outcome" where
  "add_after_current d s =
     (case curr s of
        None \<Rightarrow> Raise IndexError s
      | Some c \<Rightarrow>
          (case new_DLLNode d s of (new_node, s1) \<Rightarrow>
             (let s2 = set_prv new_node (Some c) s1;
                  s3 = set_nxt new_node (nxt (cells s2 c)) s2;
                  s4 = (case nxt (cells s3 c) of
                          Some n \<Rightarrow> set_prv n (Some new_node) s3
                        | None \<Rightarrow> s3\<lparr>tail := Some new_node\<rparr>)
              in Return () (set_nxt c (Some new_node) s4))))"

text \<open>\<^verbatim>\<open>remove_from_head\<close>.\<close>

definition remove_from_head ::
  "('a, 'z) DoublyLinkedList_scheme \<Rightarrow> ('a, ('a, 'z) DoublyLinkedList_scheme) outcome" where
  "remove_from_head s =
     (case head s of
        None \<Rightarrow> Raise IndexError s
      | Some old_head \<Rightarrow>
          (let s1 = s\<lparr>head := nxt (cells s old_head)\<rparr>;
               s2 = (case head s1 of
                       Some h \<Rightarrow> set_prv h None s1
                     | None \<Rightarrow> s1\<lparr>tail := None\<rparr>)
           in Return (data (cells s2 old_head)) (s2\<lparr>curr := head s2\<rparr>)))"

text \<open>\<^verbatim>\<open>remove_after_current\<close>.\<close>

definition remove_after_current ::
  "('a, 'z) DoublyLinkedList_scheme \<Rightarrow> ('a, ('a, 'z) DoublyLinkedList_scheme) outcome" where
  "remove_after_current s =
     (case curr s of
        None \<Rightarrow> Raise IndexError s
      | Some c \<Rightarrow>
          (case nxt (cells s c) of
             None \<Rightarrow> Raise IndexError s
           | Some to_remove \<Rightarrow>
               (let s1 = set_nxt c (nxt (cells s to_remove)) s;
                    s2 = (case nxt (cells s1 to_remove) of
                            Some n \<Rightarrow> set_prv n (Some c) s1
                          | None \<Rightarrow> s1\<lparr>tail := Some c\<rparr>)
                in Return (data (cells s2 to_remove)) s2)))"

text \<open>\<^verbatim>\<open>reset_to_head\<close>, \<^verbatim>\<open>reset_to_tail\<close>, \<^verbatim>\<open>move_forward\<close>, \<^verbatim>\<open>move_backward\<close>.\<close>

definition reset_to_head ::
  "('a, 'z) DoublyLinkedList_scheme \<Rightarrow> ('a, 'z) DoublyLinkedList_scheme" where
  "reset_to_head s = s\<lparr>curr := head s\<rparr>"

definition reset_to_tail ::
  "('a, 'z) DoublyLinkedList_scheme \<Rightarrow> ('a, 'z) DoublyLinkedList_scheme" where
  "reset_to_tail s = s\<lparr>curr := tail s\<rparr>"

definition move_forward ::
  "('a, 'z) DoublyLinkedList_scheme \<Rightarrow> (unit, ('a, 'z) DoublyLinkedList_scheme) outcome" where
  "move_forward s =
     (case curr s of
        None \<Rightarrow> Raise IndexError s
      | Some c \<Rightarrow>
          (case nxt (cells s c) of
             None \<Rightarrow> Raise IndexError s
           | Some n \<Rightarrow> Return () (s\<lparr>curr := Some n\<rparr>)))"

definition move_backward ::
  "('a, 'z) DoublyLinkedList_scheme \<Rightarrow> (unit, ('a, 'z) DoublyLinkedList_scheme) outcome" where
  "move_backward s =
     (case curr s of
        None \<Rightarrow> Raise IndexError s
      | Some c \<Rightarrow>
          (case prv (cells s c) of
             None \<Rightarrow> Raise IndexError s
           | Some p \<Rightarrow> Return () (s\<lparr>curr := Some p\<rparr>)))"

text \<open>
  \<^verbatim>\<open>find\<close>: the scan \<^verbatim>\<open>while current: ...; current = current.next\<close> follows the \<^verbatim>\<open>next\<close>
  links of the store, which nothing forces to end; the scan is a partial function and a
  scan that never ends has the value \<open>None\<close>. \<open>find_loop d current s\<close> is the loop entered
  with the local \<^verbatim>\<open>current\<close>; falling out of the loop raises \<^verbatim>\<open>IndexError\<close>.
\<close>

partial_function (option) find_loop ::
  "'a \<Rightarrow> addr option \<Rightarrow> ('a, 'z) DoublyLinkedList_scheme \<Rightarrow>
     ('a, ('a, 'z) DoublyLinkedList_scheme) outcome option" where
  "find_loop d current s =
     (case current of
        None \<Rightarrow> Some (Raise IndexError s)
      | Some c \<Rightarrow>
          if data (cells s c) = d then Some (Return d (s\<lparr>curr := Some c\<rparr>))
          else find_loop d (nxt (cells s c)) s)"

definition find ::
  "'a \<Rightarrow> ('a, 'z) DoublyLinkedList_scheme \<Rightarrow>
     ('a, ('a, 'z) DoublyLinkedList_scheme) outcome option" where
  "find d s = find_loop d (head s) s"

text \<open>
  \<^verbatim>\<open>remove\<close>: the same scan; \<open>unlink c s\<close> is the body run on the first cell \<open>c\<close> whose
  data equals the argument (lines 158 to 167), after which the method returns.
\<close>

definition unlink ::
  "addr \<Rightarrow> ('a, 'z) DoublyLinkedList_scheme \<Rightarrow> ('a, 'z) DoublyLinkedList_scheme" where
  "unlink c s =
     (let s1 = (case prv (cells s c) of
                  Some p \<Rightarrow> set_nxt p (nxt (cells s c)) s
                | None \<Rightarrow> s\<lparr>head := nxt (cells s c)\<rparr>);
          s2 = (case nxt (cells s1 c) of
                  Some n \<Rightarrow> set_prv n (prv (cells s1 c)) s1
                | None \<Rightarrow> s1\<lparr>tail := prv (cells s1 c)\<rparr>)
      in if curr s2 = Some c then s2\<lparr>curr := head s2\<rparr> else s2)"

partial_function (option) remove_loop ::
  "'a \<Rightarrow> addr option \<Rightarrow> ('a, 'z) DoublyLinkedList_scheme \<Rightarrow>
     ('a, ('a, 'z) DoublyLinkedList_scheme) outcome option" where
  "remove_loop d current s =
     (case current of
        None \<Rightarrow> Some (Raise IndexError s)
      | Some c \<Rightarrow>
          if data (cells s c) = d then Some (Return d (unlink c s))
          else remove_loop d (nxt (cells s c)) s)"

definition remove ::
  "'a \<Rightarrow> ('a, 'z) DoublyLinkedList_scheme \<Rightarrow>
     ('a, ('a, 'z) DoublyLinkedList_scheme) outcome option" where
  "remove d s = remove_loop d (head s) s"

text \<open>\<^verbatim>\<open>curr_data\<close> and \<^verbatim>\<open>is_empty\<close>.\<close>

definition curr_data ::
  "('a, 'z) DoublyLinkedList_scheme \<Rightarrow> ('a, ('a, 'z) DoublyLinkedList_scheme) outcome" where
  "curr_data s = (case curr s of None \<Rightarrow> Raise IndexError s | Some c \<Rightarrow> Return (data (cells s c)) s)"

definition is_empty :: "('a, 'z) DoublyLinkedList_scheme \<Rightarrow> bool" where
  "is_empty s \<longleftrightarrow> head s = None"

text \<open>
  The shape of a list in the store (the invariant of the class): the cells of the list
  are the distinct addresses \<open>as\<close>, reached in this order from \<^verbatim>\<open>_head\<close> along \<^verbatim>\<open>next\<close> and
  ending in \<open>None\<close>; each cell's \<^verbatim>\<open>prev\<close> is the cell before it; \<^verbatim>\<open>_tail\<close> is the last
  cell; \<^verbatim>\<open>_curr\<close> is \<open>None\<close> or one of the cells; every cell was handed out by the store.
\<close>

fun chain :: "(addr \<Rightarrow> 'a DLLNode) \<Rightarrow> addr option \<Rightarrow> addr list \<Rightarrow> bool" where
  "chain cs p [] \<longleftrightarrow> p = None"
| "chain cs p (a # as) \<longleftrightarrow> p = Some a \<and> chain cs (nxt (cs a)) as"

fun back_links :: "(addr \<Rightarrow> 'a DLLNode) \<Rightarrow> addr option \<Rightarrow> addr list \<Rightarrow> bool" where
  "back_links cs p [] \<longleftrightarrow> True"
| "back_links cs p (a # as) \<longleftrightarrow> prv (cs a) = p \<and> back_links cs (Some a) as"

definition list_shape :: "('a, 'z) DoublyLinkedList_scheme \<Rightarrow> addr list \<Rightarrow> bool" where
  "list_shape s as \<longleftrightarrow>
     distinct as \<and> chain (cells s) (head s) as \<and> back_links (cells s) None as \<and>
     tail s = (if as = [] then None else Some (last as)) \<and>
     (case curr s of None \<Rightarrow> True | Some c \<Rightarrow> c \<in> set as) \<and>
     list_all (\<lambda>a. a < fresh s) as"

text \<open>The first cell of \<open>as\<close> holding \<open>d\<close>, as the scans of \<^verbatim>\<open>find\<close> and \<^verbatim>\<open>remove\<close> meet it.\<close>

fun first_holding :: "(addr \<Rightarrow> 'a DLLNode) \<Rightarrow> 'a \<Rightarrow> addr list \<Rightarrow> addr option" where
  "first_holding cs d [] = None"
| "first_holding cs d (a # as) = (if data (cs a) = d then Some a else first_holding cs d as)"

text \<open>An empty list object on a store whose cells all hold \<open>d\<close> and no links.\<close>

definition empty_list :: "'a \<Rightarrow> 'a DoublyLinkedList" where
  "empty_list d =
     \<lparr>cells = (\<lambda>_. \<lparr>data = d, nxt = None, prv = None\<rparr>), fresh = 0,
      head = None, tail = None, curr = None\<rparr>"

text \<open>
  Two lists for concrete runs, as \<^verbatim>\<open>add_to_head\<close> builds them on the empty store: cell 0 is
  added first and cell 1 second, so the list is cell 1 followed by cell 0.
  \<open>pair_list x y\<close> holds \<open>x\<close> in its head cell and \<open>y\<close> in its tail cell.
\<close>

definition pair_list :: "nat \<Rightarrow> nat \<Rightarrow> nat DoublyLinkedList" where
  "pair_list x y =
     \<lparr>cells = (\<lambda>_. \<lparr>data = 0, nxt = None, prv = None\<rparr>)
                (0 := \<lparr>data = y, nxt = None, prv = Some 1\<rparr>,
                 1 := \<lparr>data = x, nxt = Some 0, prv = None\<rparr>),
      fresh = 2, head = Some 1, tail = Some 0, curr = Some 1\<rparr>"

definition single_list :: "nat \<Rightarrow> nat DoublyLinkedList" where
  "single_list y =
     \<lparr>cells = (\<lambda>_. \<lparr>data = 0, nxt = None, prv = None\<rparr>)
                (0 := \<lparr>data = y, nxt = None, prv = None\<rparr>),
      fresh = 1, head = Some 0, tail = Some 0, curr = Some 0\<rparr>"

section \<open>The store of neurodes\<close>

text \<open>
  The part of the program state the nodes share: \<open>heap\<close> maps a neurode's address to its
  fields, \<open>next_nid\<close> is the address the next constructor call hands out, \<open>rand_src\<close> and
  \<open>rand_pos\<close> are the draws of \<^verbatim>\<open>random.random()\<close> and the number of draws made,
  \<open>learning_rate\<close> is the class attribute \<^verbatim>\<open>Neurode._learning_rate\<close>. \<open>adjust_log\<close> is an
  observation trace that no operation reads: one entry \<open>(i, j, adjustment)\<close> for each call
  \<^verbatim>\<open>j.adjust_weights(i, adjustment)\<close> that node \<open>i\<close> makes in \<^verbatim>\<open>_update_weights\<close>.
\<close>

record world =
  heap :: "nid \<Rightarrow> neurode"
  next_nid :: nid
  rand_src :: "nat \<Rightarrow> real"
  rand_pos :: nat
  learning_rate :: real
  adjust_log :: "(nid \<times> nid \<times> real) list"

text \<open>The program state at start: no neurode constructed, the class attribute at 0.05.\<close>

definition initial_world :: "(nat \<Rightarrow> real) \<Rightarrow> world" where
  "initial_world rand =
     \<lparr>heap = (\<lambda>_. new_neurode), next_nid = 0, rand_src = rand, rand_pos = 0,
      learning_rate = 5 / 100, adjust_log = []\<rparr>"

text \<open>The property \<^verbatim>\<open>learning_rate\<close>: the getter reads and the setter writes the class attribute.\<close>

definition get_learning_rate :: "world \<Rightarrow> real" where
  "get_learning_rate w = learning_rate w"

definition set_learning_rate :: "real \<Rightarrow> world \<Rightarrow> world" where
  "set_learning_rate r w = w\<lparr>learning_rate := r\<rparr>"

text \<open>Writing the fields of the object at address \<open>a\<close>.\<close>

definition put :: "nid \<Rightarrow> neurode \<Rightarrow> world \<Rightarrow> world" where
  "put a n w = w\<lparr>heap := (heap w)(a := n)\<rparr>"

section \<open>FFNeurode.py\<close>

text \<open>\<^verbatim>\<open>FFNeurode._sigmoid\<close>, on the reals.\<close>

definition sigmoid :: "real \<Rightarrow> real" where
  "sigmoid v = 1 / (1 + exp (- v))"

text \<open>
  \<^verbatim>\<open>FFNeurode._calculate_value\<close>: Python's \<^verbatim>\<open>sum\<close> adds the products from the left, starting
  at 0, over the upstream neighbours in list order.
\<close>

definition weighted_sum :: "world \<Rightarrow> nid \<Rightarrow> real" where
  "weighted_sum w self =
     foldl (\<lambda>acc node. acc + get_weight (heap w self) node * nvalue (heap w node)) 0
       (neighbors (heap w self) UPSTREAM)"

definition calculate_value :: "nid \<Rightarrow> world \<Rightarrow> world" where
  "calculate_value self w = put self ((heap w self)\<lparr>nvalue := sigmoid (weighted_sum w self)\<rparr>) w"

text \<open>
  \<^verbatim>\<open>FFNeurode.data_ready_upstream\<close> and the loop \<^verbatim>\<open>for node in
  self._neighbors[DOWNSTREAM]: node.data_ready_upstream(self)\<close>, which is the body of
  \<^verbatim>\<open>_fire_downstream\<close> and, word for word, the loop of \<^verbatim>\<open>set_input\<close>. The two call each
  other; the first argument bounds the depth of nested \<^verbatim>\<open>data_ready_upstream\<close> calls
  (Python's recursion limit), and \<open>Exhausted\<close> is the outcome when the bound is hit.
\<close>

fun data_ready_upstream :: "nat \<Rightarrow> nid \<Rightarrow> nid \<Rightarrow> world \<Rightarrow> (unit, world) outcome"
  and fire_downstream :: "nat \<Rightarrow> nid \<Rightarrow> nid list \<Rightarrow> world \<Rightarrow> (unit, world) outcome"
where
  "data_ready_upstream 0 self node w = Exhausted"
| "data_ready_upstream (Suc k) self node w =
     (case check_in (heap w self) node UPSTREAM of
        Raise e n \<Rightarrow> Raise e (put self n w)
      | Exhausted \<Rightarrow> Exhausted
      | Return all_in n \<Rightarrow>
          (let w1 = put self n w in
           if all_in
           then (let w2 = calculate_value self w1
                 in fire_downstream k self (neighbors (heap w2 self) DOWNSTREAM) w2)
           else Return () w1))"
| "fire_downstream k self [] w = Return () w"
| "fire_downstream k self (node # rest) w =
     (case data_ready_upstream k node self w of
        Return u w1 \<Rightarrow> fire_downstream k self rest w1
      | Raise e w1 \<Rightarrow> Raise e w1
      | Exhausted \<Rightarrow> Exhausted)"

text \<open>\<^verbatim>\<open>FFNeurode.set_input\<close>.\<close>

definition set_input :: "nat \<Rightarrow> nid \<Rightarrow> real \<Rightarrow> world \<Rightarrow> (unit, world) outcome" where
  "set_input k self input_value w =
     (let w1 = put self ((heap w self)\<lparr>nvalue := input_value\<rparr>) w
      in fire_downstream k self (neighbors (heap w1 self) DOWNSTREAM) w1)"

section \<open>BPNeurode.py\<close>

text \<open>\<^verbatim>\<open>BPNeurode._sigmoid_derivative\<close>.\<close>

definition sigmoid_derivative :: "real \<Rightarrow> real" where
  "sigmoid_derivative v = v * (1 - v)"

text \<open>
  The loop of the hidden-node branch of \<^verbatim>\<open>_calculate_delta\<close>: \<^verbatim>\<open>weighted_sum += node.delta *
  node._weights[self]\<close>; the subscript raises \<^verbatim>\<open>KeyError\<close> (here \<open>None\<close>) on a missing key.
\<close>

fun delta_sum :: "world \<Rightarrow> nid \<Rightarrow> nid list \<Rightarrow> real \<Rightarrow> real option" where
  "delta_sum w self [] acc = Some acc"
| "delta_sum w self (node # rest) acc =
     (case weights (heap w node) self of
        None \<Rightarrow> None
      | Some wt \<Rightarrow> delta_sum w self rest (acc + delta (heap w node) * wt))"

text \<open>\<^verbatim>\<open>BPNeurode._calculate_delta\<close>; \<open>target_value\<close> is \<open>None\<close> for Python's default \<^verbatim>\<open>None\<close>.\<close>

definition calculate_delta :: "nid \<Rightarrow> real option \<Rightarrow> world \<Rightarrow> (unit, world) outcome" where
  "calculate_delta self target_value w =
     (case target_value of
        Some t \<Rightarrow>
          Return ()
            (put self ((heap w self)\<lparr>delta := (t - nvalue (heap w self)) *
                                              sigmoid_derivative (nvalue (heap w self))\<rparr>) w)
      | None \<Rightarrow>
          (case delta_sum w self (neighbors (heap w self) DOWNSTREAM) 0 of
             None \<Rightarrow> Raise KeyError w
           | Some ws \<Rightarrow>
               Return ()
                 (put self ((heap w self)\<lparr>delta := sigmoid_derivative (nvalue (heap w self)) * ws\<rparr>)
                    w)))"

text \<open>\<^verbatim>\<open>BPNeurode.adjust_weights\<close>: \<^verbatim>\<open>self._weights[node] += adjustment\<close> reads the key first.\<close>

definition adjust_weights :: "nid \<Rightarrow> nid \<Rightarrow> real \<Rightarrow> world \<Rightarrow> (unit, world) outcome" where
  "adjust_weights self node adjustment w =
     (case weights (heap w self) node of
        None \<Rightarrow> Raise KeyError w
      | Some old \<Rightarrow>
          Return ()
            (put self ((heap w self)\<lparr>weights := (weights (heap w self))(node \<mapsto> old + adjustment)\<rparr>)
               w))"

text \<open>
  \<^verbatim>\<open>BPNeurode._update_weights\<close>: the rate is the local \<^verbatim>\<open>learning_rate = 0.05\<close> of the method,
  not the class attribute. Each completed \<^verbatim>\<open>adjust_weights\<close> call is noted in the trace.
\<close>

fun update_weights_loop :: "nid \<Rightarrow> nid list \<Rightarrow> world \<Rightarrow> (unit, world) outcome" where
  "update_weights_loop self [] w = Return () w"
| "update_weights_loop self (node # rest) w =
     (let adjustment = (5 / 100) * delta (heap w node) * nvalue (heap w self) in
      case adjust_weights node self adjustment w of
        Return u w1 \<Rightarrow>
          update_weights_loop self rest
            (w1\<lparr>adjust_log := adjust_log w1 @ [(self, node, adjustment)]\<rparr>)
      | Raise e w1 \<Rightarrow> Raise e w1
      | Exhausted \<Rightarrow> Exhausted)"

definition update_weights :: "nid \<Rightarrow> world \<Rightarrow> (unit, world) outcome" where
  "update_weights self w = update_weights_loop self (neighbors (heap w self) DOWNSTREAM) w"

text \<open>
  \<^verbatim>\<open>BPNeurode.data_ready_downstream\<close> and \<^verbatim>\<open>_fire_upstream\<close>, with the same depth bound as the
  forward pair.
\<close>

fun data_ready_downstream :: "nat \<Rightarrow> nid \<Rightarrow> nid \<Rightarrow> world \<Rightarrow> (unit, world) outcome"
  and fire_upstream :: "nat \<Rightarrow> nid \<Rightarrow> nid list \<Rightarrow> world \<Rightarrow> (unit, world) outcome"
where
  "data_ready_downstream 0 self node w = Exhausted"
| "data_ready_downstream (Suc k) self node w =
     (case check_in (heap w self) node DOWNSTREAM of
        Raise e n \<Rightarrow> Raise e (put self n w)
      | Exhausted \<Rightarrow> Exhausted
      | Return all_in n \<Rightarrow>
          (let w1 = put self n w in
           if all_in
           then (case calculate_delta self None w1 of
                   Raise e w2 \<Rightarrow> Raise e w2
                 | Exhausted \<Rightarrow> Exhausted
                 | Return u w2 \<Rightarrow>
                     (case fire_upstream k self (neighbors (heap w2 self) UPSTREAM) w2 of
                        Raise e w3 \<Rightarrow> Raise e w3
                      | Exhausted \<Rightarrow> Exhausted
                      | Return u' w3 \<Rightarrow> update_weights self w3))
           else Return () w1))"
| "fire_upstream k self [] w = Return () w"
| "fire_upstream k self (node # rest) w =
     (case data_ready_downstream k node self w of
        Return u w1 \<Rightarrow> fire_upstream k self rest w1
      | Raise e w1 \<Rightarrow> Raise e w1
      | Exhausted \<Rightarrow> Exhausted)"

text \<open>\<^verbatim>\<open>BPNeurode.set_expected\<close>.\<close>

definition set_expected :: "nat \<Rightarrow> nid \<Rightarrow> real \<Rightarrow> world \<Rightarrow> (unit, world) outcome" where
  "set_expected k self target_value w =
     (case calculate_delta self (Some target_value) w of
        Raise e w1 \<Rightarrow> Raise e w1
      | Exhausted \<Rightarrow> Exhausted
      | Return u w1 \<Rightarrow> fire_upstream k self (neighbors (heap w1 self) UPSTREAM) w1)"

section \<open>LayerList.py\<close>

text \<open>
  A \<^verbatim>\<open>LayerList\<close> is a \<^verbatim>\<open>DoublyLinkedList\<close> whose payloads are layers (lists of neurode
  addresses), together with the store of the neurodes, \<open>net\<close>. The class parameter
  \<^verbatim>\<open>neurode_type\<close> is \<^verbatim>\<open>FFBPNeurode\<close> throughout.
\<close>

record LayerList = "nid list DoublyLinkedList" +
  net :: world

text \<open>\<^verbatim>\<open>neurode_type()\<close> and the comprehension \<^verbatim>\<open>[neurode_type() for _ in range(n)]\<close>.\<close>

definition new_node :: "world \<Rightarrow> nid \<times> world" where
  "new_node w = (next_nid w, w\<lparr>heap := (heap w)(next_nid w := new_neurode), next_nid := Suc (next_nid w)\<rparr>)"

fun make_layer :: "nat \<Rightarrow> world \<Rightarrow> nid list \<times> world" where
  "make_layer 0 w = ([], w)"
| "make_layer (Suc n) w =
     (case new_node w of (a, w1) \<Rightarrow>
        (case make_layer n w1 of (rest, w2) \<Rightarrow> (a # rest, w2)))"

text \<open>
  \<^verbatim>\<open>node.reset_neighbors(nodes, side)\<close> on the object at address \<open>a\<close>, and the loop
  \<^verbatim>\<open>for node in layer: node.reset_neighbors(nodes, side)\<close>.
\<close>

definition reset_neighbors_at :: "nid \<Rightarrow> nid list \<Rightarrow> Side \<Rightarrow> world \<Rightarrow> world" where
  "reset_neighbors_at a nodes side w =
     (case reset_neighbors (rand_src w) nodes side (heap w a, rand_pos w) of
        (n, pos) \<Rightarrow> w\<lparr>heap := (heap w)(a := n), rand_pos := pos\<rparr>)"

fun reset_each :: "nid list \<Rightarrow> nid list \<Rightarrow> Side \<Rightarrow> world \<Rightarrow> world" where
  "reset_each [] nodes side w = w"
| "reset_each (a # rest) nodes side w =
     reset_each rest nodes side (reset_neighbors_at a nodes side w)"

text \<open>
  \<^verbatim>\<open>LayerList._link_with_next\<close>. Reading \<^verbatim>\<open>self._curr.data\<close> through a cursor that is \<^verbatim>\<open>None\<close>,
  or \<^verbatim>\<open>self._curr.next.data\<close> through a missing next cell, raises \<^verbatim>\<open>AttributeError\<close>; in
  both cases no neurode has been reset when the exception leaves the method.
\<close>

definition link_with_next :: "LayerList \<Rightarrow> (unit, LayerList) outcome" where
  "link_with_next s =
     (case curr s of
        None \<Rightarrow> Raise AttributeError s
      | Some c \<Rightarrow>
          (case nxt (cells s c) of
             None \<Rightarrow> Raise AttributeError s
           | Some n \<Rightarrow>
               (let w1 = reset_each (data (cells s c)) (data (cells s n)) DOWNSTREAM (net s);
                    w2 = reset_each (data (cells s n)) (data (cells s c)) UPSTREAM w1
                in Return () (s\<lparr>net := w2\<rparr>))))"

text \<open>
  \<^verbatim>\<open>LayerList.__init__\<close>, run on a list object over the given stores. The counts are Python
  integers; \<^verbatim>\<open>range\<close> of a count is as long as the count's natural-number part.
\<close>

definition LayerList_init :: "int \<Rightarrow> int \<Rightarrow> LayerList \<Rightarrow> (unit, LayerList) outcome" where
  "LayerList_init inputs outputs s0 =
     (let s = DoublyLinkedList_init s0 in
      if inputs < 1 \<or> outputs < 1 then Raise ValueError s
      else
        (case make_layer (nat inputs) (net s) of (input_layer, w1) \<Rightarrow>
         case make_layer (nat outputs) w1 of (output_layer, w2) \<Rightarrow>
           (case add_to_head input_layer (s\<lparr>net := w2\<rparr>) of
              Raise e s1 \<Rightarrow> Raise e s1
            | Exhausted \<Rightarrow> Exhausted
            | Return u s1 \<Rightarrow>
                (case add_after_current output_layer s1 of
                   Raise e s2 \<Rightarrow> Raise e s2
                 | Exhausted \<Rightarrow> Exhausted
                 | Return u' s2 \<Rightarrow> link_with_next s2))))"

text \<open>\<^verbatim>\<open>LayerList.add_layer\<close>.\<close>

definition add_layer :: "int \<Rightarrow> LayerList \<Rightarrow> (unit, LayerList) outcome" where
  "add_layer num_nodes s =
     (if curr s = tail s then Raise IndexError s
      else if num_nodes < 0 then Raise ValueError s
      else
        (case make_layer (nat num_nodes) (net s) of (hidden_layer, w1) \<Rightarrow>
           (case add_after_current hidden_layer (s\<lparr>net := w1\<rparr>) of
              Raise e s1 \<Rightarrow> Raise e s1
            | Exhausted \<Rightarrow> Exhausted
            | Return u1 s1 \<Rightarrow>
                (case link_with_next s1 of
                   Raise e s2 \<Rightarrow> Raise e s2
                 | Exhausted \<Rightarrow> Exhausted
                 | Return u2 s2 \<Rightarrow>
                     (case move_forward s2 of
                        Raise e s3 \<Rightarrow> Raise e s3
                      | Exhausted \<Rightarrow> Exhausted
                      | Return u3 s3 \<Rightarrow>
                          (case link_with_next s3 of
                             Raise e s4 \<Rightarrow> Raise e s4
                           | Exhausted \<Rightarrow> Exhausted
                           | Return u4 s4 \<Rightarrow> move_backward s4))))))"

text \<open>
  \<^verbatim>\<open>LayerList.remove_layer\<close>. The test \<^verbatim>\<open>self._curr.next == self._tail\<close> reads \<^verbatim>\<open>next\<close> through
  the cursor and is reached only when the cursor differs from the tail; with the cursor
  \<^verbatim>\<open>None\<close> it raises \<^verbatim>\<open>AttributeError\<close>.
\<close>

definition remove_layer :: "LayerList \<Rightarrow> (unit, LayerList) outcome" where
  "remove_layer s =
     (if curr s = tail s then Raise IndexError s
      else
        (case curr s of
           None \<Rightarrow> Raise AttributeError s
         | Some c \<Rightarrow>
             if nxt (cells s c) = tail s then Raise IndexError s
             else
               (case remove_after_current s of
                  Raise e s1 \<Rightarrow> Raise e s1
                | Exhausted \<Rightarrow> Exhausted
                | Return layer s1 \<Rightarrow> link_with_next s1)))"

text \<open>\<^verbatim>\<open>input_nodes\<close> and \<^verbatim>\<open>output_nodes\<close>: the payloads of the head and tail cells.\<close>

definition input_nodes :: "LayerList \<Rightarrow> (nid list, LayerList) outcome" where
  "input_nodes s = (case head s of None \<Rightarrow> Raise AttributeError s | Some h \<Rightarrow> Return (data (cells s h)) s)"

definition output_nodes :: "LayerList \<Rightarrow> (nid list, LayerList) outcome" where
  "output_nodes s = (case tail s of None \<Rightarrow> Raise AttributeError s | Some t \<Rightarrow> Return (data (cells s t)) s)"

text \<open>
  The list object before \<^verbatim>\<open>__init__\<close> runs, over empty stores and the generator \<open>rand\<close>.
\<close>

definition blank_LayerList :: "(nat \<Rightarrow> real) \<Rightarrow> LayerList" where
  "blank_LayerList rand =
     \<lparr>cells = (\<lambda>_. \<lparr>data = [], nxt = None, prv = None\<rparr>), fresh = 0,
      head = None, tail = None, curr = None, net = initial_world rand\<rparr>"

text \<open>The state an outcome carries; \<open>d\<close> stands in when the outcome carries none.\<close>

fun state_of :: "('a, 's) outcome \<Rightarrow> 's \<Rightarrow> 's" where
  "state_of (Return v s) d = s"
| "state_of (Raise e s) d = s"
| "state_of Exhausted d = d"

text \<open>
  Names for the stores \<^verbatim>\<open>_link_with_next\<close> produces: \<open>relinked upper lower w\<close> is the store
  after its two loops on the layers \<open>upper\<close> (the cursor's) and \<open>lower\<close> (the next cell's),
  and \<open>built_net\<close> is the store the constructor leaves.
\<close>

definition relinked :: "nid list \<Rightarrow> nid list \<Rightarrow> world \<Rightarrow> world" where
  "relinked upper lower w = reset_each lower upper UPSTREAM (reset_each upper lower DOWNSTREAM w)"

definition built_net :: "int \<Rightarrow> int \<Rightarrow> world \<Rightarrow> world" where
  "built_net inputs outputs w =
     (let ins = fst (make_layer (nat inputs) w);
          w1 = snd (make_layer (nat inputs) w);
          outs = fst (make_layer (nat outputs) w1);
          w2 = snd (make_layer (nat outputs) w1)
      in reset_each outs ins UPSTREAM (reset_each ins outs DOWNSTREAM w2))"

text \<open>
  Concrete topologies for running the operations: one input and one output node over a
  generator that always draws 0, then the same after \<^verbatim>\<open>add_layer(0)\<close>, after
  \<^verbatim>\<open>add_layer(1)\<close>, and after \<^verbatim>\<open>add_layer(1)\<close> followed by \<^verbatim>\<open>remove_layer()\<close>.
\<close>

definition unit_topology :: LayerList where
  "unit_topology =
     state_of (LayerList_init 1 1 (blank_LayerList (\<lambda>_. 0))) (blank_LayerList (\<lambda>_. 0))"




text \<open>
  A training run on \<open>unit_topology\<close>: the learning rate set to 1/2 through the property
  setter, the input 1 presented, the target 1 presented.
\<close>

definition tuned_net :: world where
  "tuned_net = set_learning_rate (1 / 2) (net unit_topology)"

definition fed_net :: world where
  "fed_net = state_of (set_input 1 0 1 tuned_net) tuned_net"

definition trained_net :: world where
  "trained_net = state_of (set_expected 1 1 1 fed_net) fed_net"

section \<open>Facts about the index lookup and the reporting mask\<close>

lemma list_index_None: "list_index xs x = None \<longleftrightarrow> x \<notin> set xs"
  by (induction xs) auto

lemma list_index_Some:
  "list_index xs x = Some i \<Longrightarrow> i < length xs \<and> xs ! i = x \<and> (\<forall>j<i. xs ! j \<noteq> x)"
proof (induction xs arbitrary: i)
  case Nil
  then show ?case by simp
next
  case (Cons y ys)
  show ?case
  proof (cases "y = x")
    case True
    with Cons.prems show ?thesis by simp
  next
    case False
    with Cons.prems obtain k where k: "list_index ys x = Some k" "i = Suc k"
      by auto
    from Cons.IH [OF k(1)] have ih: "k < length ys" "ys ! k = x" "\<forall>j<k. ys ! j \<noteq> x"
      by simp_all
    have "\<forall>j<Suc k. (y # ys) ! j \<noteq> x"
    proof (intro allI impI)
      fix j assume "j < Suc k"
      then show "(y # ys) ! j \<noteq> x"
        using False ih(3) by (cases j) auto
    qed
    with ih k(2) show ?thesis by simp
  qed
qed

lemma list_index_distinct:
  "distinct xs \<Longrightarrow> i < length xs \<Longrightarrow> list_index xs (xs ! i) = Some i"
proof (induction xs arbitrary: i)
  case Nil
  then show ?case by simp
next
  case (Cons y ys)
  show ?case
  proof (cases i)
    case 0
    then show ?thesis by simp
  next
    case (Suc k)
    with Cons.prems have "k < length ys" "distinct ys" "y \<notin> set ys" by simp_all
    then have "list_index ys (ys ! k) = Some k" "ys ! k \<noteq> y"
      using Cons.IH by auto
    with Suc show ?thesis by auto
  qed
qed

section \<open>Claims about one node\<close>

text \<open>
  C4. \<^verbatim>\<open>check_in(node, side)\<close>: when \<open>node\<close> occurs in \<open>neighbors[side]\<close>, with \<open>i\<close> its
  (first) index there, the bit \<open>i\<close> is set in the reporting mask; the call returns true
  iff the mask then equals \<open>reference_value[side]\<close>, and exactly in that case the mask is
  reset to zero, otherwise it keeps the mask with the bit set. When \<open>node\<close> does not occur
  in \<open>neighbors[side]\<close>, the call raises the not-found fault (\<^verbatim>\<open>ValueError\<close> of
  \<^verbatim>\<open>list.index\<close>) and the node is left as it was. No other field is written.
\<close>

theorem check_in_contract:
  "(node \<in> set (neighbors self side) \<longrightarrow>
      (\<exists>i < length (neighbors self side).
          neighbors self side ! i = node \<and> (\<forall>j<i. neighbors self side ! j \<noteq> node) \<and>
          bit (reporting_nodes self side OR push_bit i 1) i \<and>
          check_in self node side =
            (if reporting_nodes self side OR push_bit i 1 = reference_value self side
             then Return True (self\<lparr>reporting_nodes := (reporting_nodes self)(side := 0)\<rparr>)
             else Return False
                    (self\<lparr>reporting_nodes :=
                       (reporting_nodes self)
                         (side := reporting_nodes self side OR push_bit i 1)\<rparr>)))) \<and>
   (node \<notin> set (neighbors self side) \<longrightarrow> check_in self node side = Raise ValueError self)"
proof (intro conjI impI)
  assume "node \<in> set (neighbors self side)"
  then obtain i where i: "list_index (neighbors self side) node = Some i"
    using list_index_None [of "neighbors self side" node] by (cases "list_index (neighbors self side) node") auto
  from list_index_Some [OF i]
  have props: "i < length (neighbors self side)" "neighbors self side ! i = node"
    "\<forall>j<i. neighbors self side ! j \<noteq> node" by simp_all
  have b: "bit (reporting_nodes self side OR push_bit i 1) i"
    by (simp add: bit_or_iff bit_exp_iff)
  have c: "check_in self node side =
            (if reporting_nodes self side OR push_bit i 1 = reference_value self side
             then Return True (self\<lparr>reporting_nodes := (reporting_nodes self)(side := 0)\<rparr>)
             else Return False
                    (self\<lparr>reporting_nodes :=
                       (reporting_nodes self)
                         (side := reporting_nodes self side OR push_bit i 1)\<rparr>))"
    using i by (simp add: check_in_def Let_def)
  from props b c show "\<exists>i < length (neighbors self side).
          neighbors self side ! i = node \<and> (\<forall>j<i. neighbors self side ! j \<noteq> node) \<and>
          bit (reporting_nodes self side OR push_bit i 1) i \<and>
          check_in self node side =
            (if reporting_nodes self side OR push_bit i 1 = reference_value self side
             then Return True (self\<lparr>reporting_nodes := (reporting_nodes self)(side := 0)\<rparr>)
             else Return False
                    (self\<lparr>reporting_nodes :=
                       (reporting_nodes self)
                         (side := reporting_nodes self side OR push_bit i 1)\<rparr>))"
    by blast
next
  assume "node \<notin> set (neighbors self side)"
  then have "list_index (neighbors self side) node = None"
    by (simp add: list_index_None)
  then show "check_in self node side = Raise ValueError self"
    by (simp add: check_in_def)
qed

theorem check_in_contract_witness:
  "7 \<in> set (neighbors probe_node UPSTREAM) \<and>
   check_in probe_node 7 UPSTREAM =
     Return True (probe_node\<lparr>reporting_nodes := (reporting_nodes probe_node)(UPSTREAM := 0)\<rparr>) \<and>
   5 \<in> set (neighbors probe_node UPSTREAM) \<and>
   check_in probe_node 5 UPSTREAM =
     Return False (probe_node\<lparr>reporting_nodes := (reporting_nodes probe_node)(UPSTREAM := 1)\<rparr>) \<and>
   9 \<notin> set (neighbors probe_node UPSTREAM) \<and>
   check_in probe_node 9 UPSTREAM = Raise ValueError probe_node"
  using check_in_contract [of 7 probe_node UPSTREAM] check_in_contract [of 9 probe_node UPSTREAM]
    check_in_contract [of 5 probe_node UPSTREAM]
  by (simp add: probe_node_def new_neurode_def check_in_def)

section \<open>The doubly linked list: scans and unlinking\<close>

lemma find_loop_chain:
  "chain (cells s) p as \<Longrightarrow>
   find_loop d p s =
     Some (case first_holding (cells s) d as of
             None \<Rightarrow> Raise IndexError s
           | Some c \<Rightarrow> Return d (s\<lparr>curr := Some c\<rparr>))"
proof (induction as arbitrary: p)
  case Nil
  then show ?case by (simp add: find_loop.simps)
next
  case (Cons a as)
  from Cons.prems have p: "p = Some a" and rest: "chain (cells s) (nxt (cells s a)) as"
    by simp_all
  show ?case
    by (subst find_loop.simps) (simp add: p Cons.IH [OF rest])
qed

lemma remove_loop_chain:
  "chain (cells s) p as \<Longrightarrow>
   remove_loop d p s =
     Some (case first_holding (cells s) d as of
             None \<Rightarrow> Raise IndexError s
           | Some c \<Rightarrow> Return d (unlink c s))"
proof (induction as arbitrary: p)
  case Nil
  then show ?case by (simp add: remove_loop.simps)
next
  case (Cons a as)
  from Cons.prems have p: "p = Some a" and rest: "chain (cells s) (nxt (cells s a)) as"
    by simp_all
  show ?case
    by (subst remove_loop.simps) (simp add: p Cons.IH [OF rest])
qed

lemma first_holding_None: "first_holding cs d as = None \<longleftrightarrow> (\<forall>a\<in>set as. data (cs a) \<noteq> d)"
  by (induction as) auto

lemma first_holding_Some:
  "first_holding cs d as = Some c \<Longrightarrow>
     \<exists>xs ys. as = xs @ c # ys \<and> data (cs c) = d \<and> (\<forall>a\<in>set xs. data (cs a) \<noteq> d)"
proof (induction as)
  case Nil
  then show ?case by simp
next
  case (Cons a as)
  show ?case
  proof (cases "data (cs a) = d")
    case True
    with Cons.prems have "c = a" by simp
    with True have "a # as = [] @ c # as \<and> data (cs c) = d \<and> (\<forall>a\<in>set []. data (cs a) \<noteq> d)"
      by simp
    then show ?thesis by blast
  next
    case False
    with Cons.prems have "first_holding cs d as = Some c" by simp
    from Cons.IH [OF this] obtain xs ys where
      "as = xs @ c # ys" "data (cs c) = d" "\<forall>a\<in>set xs. data (cs a) \<noteq> d" by blast
    with False have "a # as = (a # xs) @ c # ys \<and> data (cs c) = d \<and>
        (\<forall>b\<in>set (a # xs). data (cs b) \<noteq> d)" by simp
    then show ?thesis by blast
  qed
qed

lemma chain_cong:
  "(\<forall>a\<in>set as. nxt (cs' a) = nxt (cs a)) \<Longrightarrow> chain cs' p as = chain cs p as"
  by (induction as arbitrary: p) auto

lemma back_links_cong:
  "(\<forall>a\<in>set as. prv (cs' a) = prv (cs a)) \<Longrightarrow> back_links cs' p as = back_links cs p as"
  by (induction as arbitrary: p) auto

lemma chain_head: "chain cs p as \<Longrightarrow> p = (if as = [] then None else Some (hd as))"
  by (cases as) auto

lemma chain_mid:
  "chain cs p (xs @ c # ys) \<Longrightarrow> nxt (cs c) = (if ys = [] then None else Some (hd ys))"
proof (induction xs arbitrary: p)
  case Nil
  then show ?case using chain_head [of cs "nxt (cs c)" ys] by simp
next
  case (Cons x xs)
  from Cons.prems have "chain cs (nxt (cs x)) (xs @ c # ys)" by simp
  then show ?case by (rule Cons.IH)
qed

lemma back_links_mid:
  "back_links cs q (xs @ c # ys) \<Longrightarrow> prv (cs c) = (if xs = [] then q else Some (last xs))"
  by (induction xs arbitrary: q) auto

lemma chain_skip:
  assumes "chain cs p (xs @ c # ys)" and "distinct (xs @ c # ys)"
    and "\<forall>a\<in>set xs \<union> set ys.
           nxt (cs' a) = (if xs \<noteq> [] \<and> a = last xs then nxt (cs c) else nxt (cs a))"
  shows "chain cs' (if xs = [] then nxt (cs c) else p) (xs @ ys)"
  using assms
proof (induction xs arbitrary: p)
  case Nil
  then have "chain cs (nxt (cs c)) ys" and "\<forall>a\<in>set ys. nxt (cs' a) = nxt (cs a)"
    by simp_all
  then show ?case using chain_cong [of ys cs' cs "nxt (cs c)"] by simp
next
  case (Cons x xs)
  from Cons.prems(1) have p: "p = Some x" and rest: "chain cs (nxt (cs x)) (xs @ c # ys)"
    by simp_all
  from Cons.prems(2) have d: "distinct (xs @ c # ys)" and x: "x \<notin> set xs" "x \<noteq> c" "x \<notin> set ys"
    by simp_all
  show ?case
  proof (cases "xs = []")
    case True
    with rest have c: "chain cs (nxt (cs c)) ys" by simp
    from Cons.prems(3) True have nx: "nxt (cs' x) = nxt (cs c)" by simp
    from Cons.prems(3) True x(3) have "\<forall>a\<in>set ys. nxt (cs' a) = nxt (cs a)" by auto
    then have "chain cs' (nxt (cs c)) ys = chain cs (nxt (cs c)) ys"
      by (rule chain_cong)
    with c nx p True show ?thesis by simp
  next
    case False
    then have l: "last xs \<in> set xs" by simp
    with x(1) have lx: "last xs \<noteq> x" by auto
    from Cons.prems(3) False
    have pre: "\<forall>a\<in>set xs \<union> set ys.
           nxt (cs' a) = (if xs \<noteq> [] \<and> a = last xs then nxt (cs c) else nxt (cs a))"
      by simp
    from Cons.IH [OF rest d pre] False have ih: "chain cs' (nxt (cs x)) (xs @ ys)" by simp
    from Cons.prems(3) False lx have "nxt (cs' x) = nxt (cs x)" by simp
    with ih p show ?thesis by simp
  qed
qed

lemma back_links_skip:
  assumes "back_links cs q (xs @ c # ys)" and "distinct (xs @ c # ys)"
    and "\<forall>a\<in>set xs \<union> set ys.
           prv (cs' a) = (if ys \<noteq> [] \<and> a = hd ys then prv (cs c) else prv (cs a))"
  shows "back_links cs' q (xs @ ys)"
  using assms
proof (induction xs arbitrary: q)
  case Nil
  show ?case
  proof (cases ys)
    case Nil
    then show ?thesis by simp
  next
    case (Cons y ys')
    with Nil.prems(1) have pc: "prv (cs c) = q" and b: "back_links cs (Some y) ys'"
      by simp_all
    from Nil.prems(2) Cons have y: "y \<notin> set ys'" by simp
    from Nil.prems(3) Cons have py: "prv (cs' y) = prv (cs c)" by simp
    from Nil.prems(3) Cons y have "\<forall>a\<in>set ys'. prv (cs' a) = prv (cs a)" by auto
    then have "back_links cs' (Some y) ys' = back_links cs (Some y) ys'"
      by (rule back_links_cong)
    with b pc py Cons show ?thesis by simp
  qed
next
  case (Cons x xs)
  from Cons.prems(1) have px: "prv (cs x) = q" and rest: "back_links cs (Some x) (xs @ c # ys)"
    by simp_all
  from Cons.prems(2) have d: "distinct (xs @ c # ys)" and x: "x \<notin> set ys" by simp_all
  from Cons.prems(3)
  have pre: "\<forall>a\<in>set xs \<union> set ys.
           prv (cs' a) = (if ys \<noteq> [] \<and> a = hd ys then prv (cs c) else prv (cs a))"
    by simp
  from Cons.IH [OF rest d pre] have ih: "back_links cs' (Some x) (xs @ ys)" .
  have "ys \<noteq> [] \<Longrightarrow> hd ys \<noteq> x" using x by (cases ys) auto
  with Cons.prems(3) have "prv (cs' x) = prv (cs x)" by auto
  with ih px show ?case by simp
qed


lemma unlink_frame:
  "head (unlink c s) = (if prv (cells s c) = None then nxt (cells s c) else head s)"
  "tail (unlink c s) = (if nxt (cells s c) = None then prv (cells s c) else tail s)"
  "curr (unlink c s) = (if curr s = Some c then head (unlink c s) else curr s)"
  "fresh (unlink c s) = fresh s"
  "data (cells (unlink c s) a) = data (cells s a)"
  "nxt (cells (unlink c s) a) =
     (if prv (cells s c) = Some a then nxt (cells s c) else nxt (cells s a))"
  "prv (cells (unlink c s) a) =
     (if nxt (cells s c) = Some a then prv (cells s c) else prv (cells s a))"
  by (auto simp: unlink_def set_nxt_def set_prv_def Let_def split: option.splits)

lemma shape_position:
  assumes "list_shape s (xs @ c # ys)"
  shows "prv (cells s c) = (if xs = [] then None else Some (last xs))"
    and "nxt (cells s c) = (if ys = [] then None else Some (hd ys))"
    and "head s = Some c \<longleftrightarrow> xs = []"
    and "tail s = Some c \<longleftrightarrow> ys = []"
proof -
  from assms have ch: "chain (cells s) (head s) (xs @ c # ys)"
    and bl: "back_links (cells s) None (xs @ c # ys)"
    and d: "distinct (xs @ c # ys)"
    and t: "tail s = Some (last (xs @ c # ys))"
    by (simp_all add: list_shape_def)
  show "prv (cells s c) = (if xs = [] then None else Some (last xs))"
    using back_links_mid [OF bl] .
  show "nxt (cells s c) = (if ys = [] then None else Some (hd ys))"
    using chain_mid [OF ch] .
  from chain_head [OF ch] have h: "head s = Some (hd (xs @ c # ys))" by simp
  show "head s = Some c \<longleftrightarrow> xs = []"
  proof (cases xs)
    case Nil
    with h show ?thesis by simp
  next
    case (Cons x xs')
    with d have "x \<noteq> c" by auto
    with h Cons show ?thesis by simp
  qed
  show "tail s = Some c \<longleftrightarrow> ys = []"
  proof (cases "ys = []")
    case True
    with t show ?thesis by simp
  next
    case False
    then have "last ys \<in> set ys" by simp
    with d have "last ys \<noteq> c" by auto
    with t False show ?thesis by simp
  qed
qed

lemma unlink_shape:
  assumes sh: "list_shape s (xs @ c # ys)"
  shows "list_shape (unlink c s) (xs @ ys)"
proof -
  from sh have ch: "chain (cells s) (head s) (xs @ c # ys)"
    and bl: "back_links (cells s) None (xs @ c # ys)"
    and d: "distinct (xs @ c # ys)"
    and t: "tail s = Some (last (xs @ c # ys))"
    and cu: "case curr s of None \<Rightarrow> True | Some a \<Rightarrow> a \<in> set (xs @ c # ys)"
    and fr: "list_all (\<lambda>a. a < fresh s) (xs @ c # ys)"
    by (simp_all add: list_shape_def)
  note pos = shape_position [OF sh]
  let ?s = "unlink c s"
  have d': "distinct (xs @ ys)" using d by auto
  have nx: "\<forall>a\<in>set xs \<union> set ys.
           nxt (cells ?s a) =
             (if xs \<noteq> [] \<and> a = last xs then nxt (cells s c) else nxt (cells s a))"
    by (auto simp: unlink_frame pos(1))
  from chain_skip [OF ch d nx]
  have "chain (cells ?s) (if xs = [] then nxt (cells s c) else head s) (xs @ ys)" .
  moreover have "head ?s = (if xs = [] then nxt (cells s c) else head s)"
    by (simp add: unlink_frame pos(1))
  ultimately have ch': "chain (cells ?s) (head ?s) (xs @ ys)" by simp
  have pv: "\<forall>a\<in>set xs \<union> set ys.
           prv (cells ?s a) =
             (if ys \<noteq> [] \<and> a = hd ys then prv (cells s c) else prv (cells s a))"
    by (auto simp: unlink_frame pos(2))
  from back_links_skip [OF bl d pv] have bl': "back_links (cells ?s) None (xs @ ys)" .
  have t': "tail ?s = (if xs @ ys = [] then None else Some (last (xs @ ys)))"
    using t by (auto simp: unlink_frame pos(1,2))
  have hd': "head ?s = (if xs @ ys = [] then None else Some (hd (xs @ ys)))"
    using chain_head [OF ch'] .
  have cu': "case curr ?s of None \<Rightarrow> True | Some a \<Rightarrow> a \<in> set (xs @ ys)"
  proof (cases "curr s = Some c")
    case True
    then have "curr ?s = head ?s" by (simp add: unlink_frame)
    with hd' show ?thesis by (cases "xs @ ys") auto
  next
    case False
    then have "curr ?s = curr s" by (simp add: unlink_frame)
    with cu False show ?thesis by (auto split: option.splits)
  qed
  have fr': "list_all (\<lambda>a. a < fresh ?s) (xs @ ys)"
    using fr by (simp add: unlink_frame)
  from d' ch' bl' t' cu' fr' show ?thesis
    by (simp add: list_shape_def)
qed

lemma pair_list_built:
  "add_to_head y (empty_list 0) = Return () s1 \<Longrightarrow> add_to_head x s1 = Return () (pair_list x y)"
  by (auto simp: add_to_head_def empty_list_def new_DLLNode_def set_nxt_def set_prv_def Let_def pair_list_def fun_eq_iff)

lemma pair_list_shape: "list_shape (pair_list x y) [1, 0]"
  by (simp add: list_shape_def pair_list_def)

lemma find_pair: "find d (pair_list x y) =
   Some (if x = d then Return d (pair_list x y)
         else if y = d then Return d ((pair_list x y)\<lparr>curr := Some 0\<rparr>)
         else Raise IndexError (pair_list x y))"
proof -
  have "chain (cells (pair_list x y)) (head (pair_list x y)) [1, 0]"
    using pair_list_shape [of x y] by (simp add: list_shape_def)
  from find_loop_chain [OF this, of d] show ?thesis
    by (simp add: find_def) (simp add: pair_list_def)
qed

lemma remove_pair_head:
  "remove x (pair_list x y) = Some (Return x (unlink 1 (pair_list x y)))"
proof -
  have "chain (cells (pair_list x y)) (head (pair_list x y)) [1, 0]"
    using pair_list_shape [of x y] by (simp add: list_shape_def)
  from remove_loop_chain [OF this, of x] show ?thesis
    by (simp add: remove_def) (simp add: pair_list_def)
qed

section \<open>Claims about the doubly linked list\<close>

text \<open>
  C10. \<^verbatim>\<open>DoublyLinkedList.remove(value)\<close> on a well-shaped list whose first cell holding the
  value is \<open>c\<close>: the call returns; when \<open>c\<close> is the cursor, the cursor becomes the new head,
  and otherwise the cursor is unchanged. The references to the removed cell are the only
  ones written: \<^verbatim>\<open>_head\<close> changes only when it was \<open>c\<close> (to \<open>c\<close>'s successor), \<^verbatim>\<open>_tail\<close> only
  when it was \<open>c\<close> (to \<open>c\<close>'s predecessor), the \<^verbatim>\<open>next\<close> link only of \<open>c\<close>'s predecessor and the
  \<^verbatim>\<open>prev\<close> link only of \<open>c\<close>'s successor, which are routed around \<open>c\<close>. Every other link of
  every cell, the links of \<open>c\<close> itself and all payloads are unchanged, and the list is
  again well shaped, with the cells it had but \<open>c\<close>.
\<close>

theorem remove_frame:
  assumes "list_shape s as" and "first_holding (cells s) d as = Some c"
  shows "\<exists>s'. remove d s = Some (Return d s') \<and>
      curr s' = (if curr s = Some c then head s' else curr s) \<and>
      head s' = (if head s = Some c then nxt (cells s c) else head s) \<and>
      tail s' = (if tail s = Some c then prv (cells s c) else tail s) \<and>
      (\<forall>a. data (cells s' a) = data (cells s a)) \<and>
      (\<forall>a. nxt (cells s' a) =
             (if prv (cells s c) = Some a then nxt (cells s c) else nxt (cells s a))) \<and>
      (\<forall>a. prv (cells s' a) =
             (if nxt (cells s c) = Some a then prv (cells s c) else prv (cells s a))) \<and>
      list_shape s' (remove1 c as)"
proof -
  from first_holding_Some [OF assms(2)] obtain xs ys where
    as: "as = xs @ c # ys" by blast
  from assms(1) as have sh: "list_shape s (xs @ c # ys)" by simp
  then have ch: "chain (cells s) (head s) as" and d: "distinct (xs @ c # ys)"
    using as by (simp_all add: list_shape_def)
  note pos = shape_position [OF sh]
  have r: "remove d s = Some (Return d (unlink c s))"
    using remove_loop_chain [OF ch, of d] assms(2) by (simp add: remove_def)
  from d have "c \<notin> set xs" by auto
  then have rm: "remove1 c as = xs @ ys"
    by (simp add: as remove1_append)
  have h: "head (unlink c s) = (if head s = Some c then nxt (cells s c) else head s)"
    using pos by (auto simp: unlink_frame)
  have t: "tail (unlink c s) = (if tail s = Some c then prv (cells s c) else tail s)"
    using pos by (auto simp: unlink_frame)
  have shape': "list_shape (unlink c s) (remove1 c as)"
    using unlink_shape [OF sh] rm by simp
  show ?thesis
    using r h t shape' unlink_frame(3,5,6,7) [of c s] by simp
qed


theorem remove_frame_witness:
  "list_shape (pair_list 2 1) [1, 0] \<and>
   first_holding (cells (pair_list 2 1)) 2 [1, 0] = Some 1 \<and>
   remove 2 (pair_list 2 1) = Some (Return 2 (unlink 1 (pair_list 2 1))) \<and>
   curr (pair_list 2 1) = Some 1 \<and>
   head (unlink 1 (pair_list 2 1)) = Some 0 \<and>
   curr (unlink 1 (pair_list 2 1)) = Some 0 \<and>
   tail (unlink 1 (pair_list 2 1)) = Some 0 \<and>
   list_shape (unlink 1 (pair_list 2 1)) [0]"
proof -
  have h1: "list_shape (pair_list 2 1) [1, 0]" by (rule pair_list_shape)
  have h2: "first_holding (cells (pair_list 2 1)) 2 [1, 0] = Some 1"
    by (simp add: pair_list_def)
  have r: "remove 2 (pair_list 2 1) = Some (Return 2 (unlink 1 (pair_list 2 1)))"
    by (rule remove_pair_head)
  have f: "curr (pair_list 2 1) = Some 1" "head (pair_list 2 1) = Some 1"
    "tail (pair_list 2 1) = Some 0" "nxt (cells (pair_list 2 1) 1) = Some 0"
    by (simp_all add: pair_list_def)
  from remove_frame [OF h1 h2] r f h1 h2 show ?thesis by auto
qed

text \<open>
  C8, as amended. On a well-shaped list in which at most one cell holds \<open>v\<close>: after a
  successful \<^verbatim>\<open>find(v)\<close> followed by a successful \<^verbatim>\<open>remove(v)\<close>, a second \<^verbatim>\<open>find(v)\<close> fails
  with the not-found fault (the code raises \<^verbatim>\<open>IndexError\<close>) and leaves the list as the
  removal left it.
\<close>

theorem find_remove_find:
  assumes "list_shape s as"
    and "length (filter (\<lambda>a. data (cells s a) = d) as) \<le> 1"
    and "find d s = Some (Return r1 s1)"
    and "remove d s1 = Some (Return r2 s2)"
  shows "find d s2 = Some (Raise IndexError s2)"
proof -
  have ch: "chain (cells s) (head s) as" using assms(1) by (simp add: list_shape_def)
  from find_loop_chain [OF ch, of d] assms(3)
  obtain c where c: "first_holding (cells s) d as = Some c" and s1: "s1 = s\<lparr>curr := Some c\<rparr>"
    by (auto simp: find_def split: option.splits)
  from first_holding_Some [OF c] obtain xs ys where
    as: "as = xs @ c # ys" and dc: "data (cells s c) = d"
    and xs: "\<forall>a\<in>set xs. data (cells s a) \<noteq> d" by blast
  have sh1: "list_shape s1 (xs @ c # ys)"
    using assms(1) as s1 by (simp add: list_shape_def)
  then have ch1: "chain (cells s1) (head s1) (xs @ c # ys)" by (simp add: list_shape_def)
  have c1: "first_holding (cells s1) d (xs @ c # ys) = Some c"
    using c as s1 by simp
  from remove_loop_chain [OF ch1, of d] c1 assms(4)
  have s2: "s2 = unlink c s1" by (simp add: remove_def)
  have sh2: "list_shape s2 (xs @ ys)" using unlink_shape [OF sh1] s2 by simp
  then have ch2: "chain (cells s2) (head s2) (xs @ ys)" by (simp add: list_shape_def)
  from assms(2) as dc have "filter (\<lambda>a. data (cells s a) = d) ys = []"
    by simp
  then have ys: "\<forall>a\<in>set ys. data (cells s a) \<noteq> d"
    by (simp add: filter_empty_conv)
  have "\<forall>a\<in>set (xs @ ys). data (cells s2 a) \<noteq> d"
    using xs ys s2 s1 by (simp add: unlink_frame ball_Un)
  then have "first_holding (cells s2) d (xs @ ys) = None"
    by (simp only: first_holding_None)
  with find_loop_chain [OF ch2, of d] show ?thesis by (simp add: find_def)
qed


theorem find_remove_find_witness:
  "list_shape (pair_list 2 1) [1, 0] \<and>
   length (filter (\<lambda>a. data (cells (pair_list 2 1) a) = 1) [1, 0]) \<le> 1 \<and>
   find 1 (pair_list 2 1) = Some (Return 1 ((pair_list 2 1)\<lparr>curr := Some 0\<rparr>)) \<and>
   remove 1 ((pair_list 2 1)\<lparr>curr := Some 0\<rparr>) =
     Some (Return 1 (unlink 0 ((pair_list 2 1)\<lparr>curr := Some 0\<rparr>))) \<and>
   find 1 (unlink 0 ((pair_list 2 1)\<lparr>curr := Some 0\<rparr>)) =
     Some (Raise IndexError (unlink 0 ((pair_list 2 1)\<lparr>curr := Some 0\<rparr>)))"
proof -
  let ?s1 = "(pair_list 2 1)\<lparr>curr := Some 0\<rparr>"
  have h1: "list_shape (pair_list 2 1) [1, 0]" by (rule pair_list_shape)
  have h2: "length (filter (\<lambda>a. data (cells (pair_list 2 1) a) = 1) [1, 0]) \<le> 1"
    by (simp add: pair_list_def)
  have h3: "find 1 (pair_list 2 1) = Some (Return 1 ?s1)"
    by (simp add: find_pair)
  have "chain (cells ?s1) (head ?s1) [1, 0]"
    using h1 by (simp add: list_shape_def)
  from remove_loop_chain [OF this, of 1]
  have h4: "remove 1 ?s1 = Some (Return 1 (unlink 0 ?s1))"
    by (simp add: remove_def) (simp add: pair_list_def)
  from find_remove_find [OF h1 h2 h3 h4] h1 h2 h3 h4 show ?thesis by simp
qed

text \<open>
  C8 as stated fails when the value occurs twice: \<^verbatim>\<open>remove\<close> unlinks the first occurrence
  only (as its docstring says), so on the list that two calls \<^verbatim>\<open>add_to_head(1)\<close> build, the
  second \<^verbatim>\<open>find(1)\<close> succeeds on the cell that is left.
\<close>

theorem find_remove_find_counterexample:
  "add_to_head 1 (empty_list 0) = Return () (single_list 1) \<and>
   add_to_head 1 (single_list 1) = Return () (pair_list 1 1) \<and>
   find 1 (pair_list 1 1) = Some (Return 1 (pair_list 1 1)) \<and>
   remove 1 (pair_list 1 1) = Some (Return 1 (unlink 1 (pair_list 1 1))) \<and>
   find 1 (unlink 1 (pair_list 1 1)) = Some (Return 1 (unlink 1 (pair_list 1 1)))"
proof -
  have a1: "add_to_head 1 (empty_list 0) = Return () (single_list 1)"
    by (auto simp: add_to_head_def empty_list_def new_DLLNode_def set_nxt_def set_prv_def
          Let_def single_list_def fun_eq_iff)
  have a2: "add_to_head 1 (single_list 1) = Return () (pair_list 1 1)"
    using a1 by (rule pair_list_built)
  have f1: "find 1 (pair_list 1 1) = Some (Return 1 (pair_list 1 1))"
    by (simp add: find_pair)
  have r: "remove 1 (pair_list 1 1) = Some (Return 1 (unlink 1 (pair_list 1 1)))"
    by (rule remove_pair_head)
  have "list_shape (pair_list 1 1) ([] @ 1 # [0])"
    using pair_list_shape [of 1 1] by simp
  from unlink_shape [OF this] have sh: "list_shape (unlink 1 (pair_list 1 1)) [0]"
    by simp
  then have "chain (cells (unlink 1 (pair_list 1 1))) (head (unlink 1 (pair_list 1 1))) [0]"
    by (simp add: list_shape_def)
  from find_loop_chain [OF this, of 1]
  have "find 1 (unlink 1 (pair_list 1 1)) =
          Some (Return 1 ((unlink 1 (pair_list 1 1))\<lparr>curr := Some 0\<rparr>))"
    by (simp add: find_def unlink_frame) (simp add: pair_list_def)
  moreover have "curr (unlink 1 (pair_list 1 1)) = Some 0"
    by (simp add: unlink_frame) (simp add: pair_list_def)
  then have "(unlink 1 (pair_list 1 1))\<lparr>curr := Some 0\<rparr> = unlink 1 (pair_list 1 1)"
    by (cases "unlink 1 (pair_list 1 1)") simp
  ultimately have f2: "find 1 (unlink 1 (pair_list 1 1)) = Some (Return 1 (unlink 1 (pair_list 1 1)))"
    by simp
  from a1 a2 f1 r f2 show ?thesis by simp
qed

section \<open>Rewiring, construction and structural edits\<close>

lemma process_all_fields:
  "neighbors (fst (process_all rand nodes side st)) = neighbors (fst st)"
  "reference_value (fst (process_all rand nodes side st)) = reference_value (fst st)"
  "reporting_nodes (fst (process_all rand nodes side st)) = reporting_nodes (fst st)"
  "nvalue (fst (process_all rand nodes side st)) = nvalue (fst st)"
  "delta (fst (process_all rand nodes side st)) = delta (fst st)"
  by (induction nodes arbitrary: st; simp add: process_new_neighbor_def split: prod.splits)+

lemma process_all_pos:
  "snd (process_all rand nodes side st) =
     snd st + (if side = UPSTREAM then length nodes else 0)"
  by (induction nodes arbitrary: st) (auto simp: process_new_neighbor_def split: prod.splits)

lemma process_all_downstream:
  "process_all rand nodes DOWNSTREAM st = st"
  by (induction nodes arbitrary: st) (auto simp: process_new_neighbor_def split: prod.splits)

lemma process_all_weights_other:
  "x \<notin> set nodes \<Longrightarrow> weights (fst (process_all rand nodes side st)) x = weights (fst st) x"
  by (induction nodes arbitrary: st) (auto simp: process_new_neighbor_def split: prod.splits)

lemma process_all_weights_fresh:
  "x \<in> set nodes \<Longrightarrow>
   \<exists>k. snd st \<le> k \<and> k < snd st + length nodes \<and>
       weights (fst (process_all rand nodes UPSTREAM st)) x = Some (rand k)"
proof (induction nodes arbitrary: st)
  case Nil
  then show ?case by simp
next
  case (Cons y ys)
  obtain n p where st: "st = (n, p)" by (cases st)
  let ?st1 = "process_new_neighbor rand y UPSTREAM st"
  have st1: "?st1 = (n\<lparr>weights := (weights n)(y \<mapsto> rand p)\<rparr>, Suc p)"
    by (simp add: st process_new_neighbor_def)
  show ?case
  proof (cases "x \<in> set ys")
    case True
    from Cons.IH [OF True, of ?st1] obtain k where
      "snd ?st1 \<le> k" "k < snd ?st1 + length ys"
      "weights (fst (process_all rand ys UPSTREAM ?st1)) x = Some (rand k)" by blast
    then have "snd st \<le> k \<and> k < snd st + length (y # ys) \<and>
       weights (fst (process_all rand (y # ys) UPSTREAM st)) x = Some (rand k)"
      unfolding st1 by (simp add: st process_new_neighbor_def)
    then show ?thesis by blast
  next
    case False
    with Cons.prems have xy: "x = y" by simp
    have "weights (fst (process_all rand ys UPSTREAM ?st1)) x = weights (fst ?st1) x"
      using False by (rule process_all_weights_other)
    then have "snd st \<le> p \<and> p < snd st + length (y # ys) \<and>
       weights (fst (process_all rand (y # ys) UPSTREAM st)) x = Some (rand p)"
      unfolding st1 by (simp add: st xy process_new_neighbor_def)
    then show ?thesis by blast
  qed
qed

lemma reset_neighbors_fields:
  "neighbors (fst (reset_neighbors rand nodes side (n, p))) = (neighbors n)(side := nodes)"
  "reference_value (fst (reset_neighbors rand nodes side (n, p))) =
     (reference_value n)(side := 2 ^ length nodes - 1)"
  "reporting_nodes (fst (reset_neighbors rand nodes side (n, p))) = reporting_nodes n"
  "nvalue (fst (reset_neighbors rand nodes side (n, p))) = nvalue n"
  "delta (fst (reset_neighbors rand nodes side (n, p))) = delta n"
  "snd (reset_neighbors rand nodes side (n, p)) = p + (if side = UPSTREAM then length nodes else 0)"
  using process_all_fields [of rand nodes side "(n\<lparr>neighbors := (neighbors n)(side := nodes)\<rparr>, p)"]
    process_all_pos [of rand nodes side "(n\<lparr>neighbors := (neighbors n)(side := nodes)\<rparr>, p)"]
  by (auto simp: reset_neighbors_def split: prod.splits)

lemma reset_neighbors_weights_down:
  "weights (fst (reset_neighbors rand nodes DOWNSTREAM (n, p))) = weights n"
  by (simp add: reset_neighbors_def process_all_downstream)

lemma reset_neighbors_weights_other:
  "x \<notin> set nodes \<Longrightarrow> weights (fst (reset_neighbors rand nodes side (n, p))) x = weights n x"
  using process_all_weights_other [of x nodes rand side "(n\<lparr>neighbors := (neighbors n)(side := nodes)\<rparr>, p)"]
  by (auto simp: reset_neighbors_def split: prod.splits)

lemma reset_neighbors_weights_fresh:
  "x \<in> set nodes \<Longrightarrow>
   \<exists>k. p \<le> k \<and> k < p + length nodes \<and>
       weights (fst (reset_neighbors rand nodes UPSTREAM (n, p))) x = Some (rand k)"
  using process_all_weights_fresh [of x nodes "(n\<lparr>neighbors := (neighbors n)(UPSTREAM := nodes)\<rparr>, p)" rand]
  by (auto simp: reset_neighbors_def split: prod.splits)

lemma reset_neighbors_at_frame:
  "rand_src (reset_neighbors_at a nodes side w) = rand_src w"
  "next_nid (reset_neighbors_at a nodes side w) = next_nid w"
  "learning_rate (reset_neighbors_at a nodes side w) = learning_rate w"
  "adjust_log (reset_neighbors_at a nodes side w) = adjust_log w"
  "rand_pos (reset_neighbors_at a nodes side w) =
     rand_pos w + (if side = UPSTREAM then length nodes else 0)"
  "heap (reset_neighbors_at a nodes side w) b =
     (if b = a then fst (reset_neighbors (rand_src w) nodes side (heap w a, rand_pos w))
      else heap w b)"
  using reset_neighbors_fields(6) [of "rand_src w" nodes side "heap w a" "rand_pos w"]
  by (auto simp: reset_neighbors_at_def split: prod.splits)

lemma reset_each_frame:
  "rand_src (reset_each as nodes side w) = rand_src w"
  "next_nid (reset_each as nodes side w) = next_nid w"
  "learning_rate (reset_each as nodes side w) = learning_rate w"
  "adjust_log (reset_each as nodes side w) = adjust_log w"
  by (induction as arbitrary: w; simp add: reset_neighbors_at_frame)+

lemma reset_each_pos: "rand_pos w \<le> rand_pos (reset_each as nodes side w)"
proof (induction as arbitrary: w)
  case Nil
  then show ?case by simp
next
  case (Cons a as)
  have "rand_pos w \<le> rand_pos (reset_neighbors_at a nodes side w)"
    by (simp add: reset_neighbors_at_frame)
  also have "\<dots> \<le> rand_pos (reset_each as nodes side (reset_neighbors_at a nodes side w))"
    by (rule Cons.IH)
  finally show ?case by simp
qed

lemma reset_each_other:
  "b \<notin> set as \<Longrightarrow> heap (reset_each as nodes side w) b = heap w b"
  by (induction as arbitrary: w) (auto simp: reset_neighbors_at_frame)

lemma reset_each_neighbors:
  "neighbors (heap (reset_each as nodes side w) b) sd =
     (if b \<in> set as \<and> sd = side then nodes else neighbors (heap w b) sd)"
  by (induction as arbitrary: w) (auto simp: reset_neighbors_at_frame reset_neighbors_fields)

lemma reset_each_reference:
  "reference_value (heap (reset_each as nodes side w) b) sd =
     (if b \<in> set as \<and> sd = side then 2 ^ length nodes - 1 else reference_value (heap w b) sd)"
  by (induction as arbitrary: w) (auto simp: reset_neighbors_at_frame reset_neighbors_fields)

lemma reset_each_same:
  "reporting_nodes (heap (reset_each as nodes side w) b) = reporting_nodes (heap w b)"
  "nvalue (heap (reset_each as nodes side w) b) = nvalue (heap w b)"
  "delta (heap (reset_each as nodes side w) b) = delta (heap w b)"
  by (induction as arbitrary: w; simp add: reset_neighbors_at_frame reset_neighbors_fields)+

lemma reset_each_weights_down:
  "weights (heap (reset_each as nodes DOWNSTREAM w) b) = weights (heap w b)"
  by (induction as arbitrary: w) (simp_all add: reset_neighbors_at_frame reset_neighbors_weights_down)

lemma reset_each_weights_fresh:
  "b \<in> set as \<Longrightarrow> x \<in> set nodes \<Longrightarrow>
   \<exists>k. rand_pos w \<le> k \<and> weights (heap (reset_each as nodes UPSTREAM w) b) x = Some (rand_src w k)"
proof (induction as arbitrary: w)
  case Nil
  then show ?case by simp
next
  case (Cons a as)
  let ?w1 = "reset_neighbors_at a nodes UPSTREAM w"
  have pos: "rand_pos w \<le> rand_pos ?w1" by (simp add: reset_neighbors_at_frame)
  have src: "rand_src ?w1 = rand_src w" by (simp add: reset_neighbors_at_frame)
  show ?case
  proof (cases "b \<in> set as")
    case True
    from Cons.IH [OF True Cons.prems(2), of ?w1] obtain k where
      "rand_pos ?w1 \<le> k" "weights (heap (reset_each as nodes UPSTREAM ?w1) b) x = Some (rand_src ?w1 k)"
      by blast
    with pos src have "rand_pos w \<le> k \<and>
        weights (heap (reset_each (a # as) nodes UPSTREAM w) b) x = Some (rand_src w k)"
      by simp
    then show ?thesis by blast
  next
    case False
    with Cons.prems(1) have ba: "b = a" by simp
    from reset_neighbors_weights_fresh [OF Cons.prems(2), of "rand_pos w" "rand_src w" "heap w a"]
    obtain k where "rand_pos w \<le> k"
      "weights (fst (reset_neighbors (rand_src w) nodes UPSTREAM (heap w a, rand_pos w))) x = Some (rand_src w k)"
      by blast
    moreover have "heap (reset_each as nodes UPSTREAM ?w1) b = heap ?w1 b"
      using False by (rule reset_each_other)
    ultimately have "rand_pos w \<le> k \<and>
        weights (heap (reset_each (a # as) nodes UPSTREAM w) b) x = Some (rand_src w k)"
      by (simp add: ba reset_neighbors_at_frame)
    then show ?thesis by blast
  qed
qed

lemma make_layer_spec:
  "make_layer n w =
     ([next_nid w ..< next_nid w + n],
      w\<lparr>heap := (\<lambda>a. if next_nid w \<le> a \<and> a < next_nid w + n then new_neurode else heap w a),
        next_nid := next_nid w + n\<rparr>)"
proof (induction n arbitrary: w)
  case 0
  have "(\<lambda>a. if next_nid w \<le> a \<and> a < next_nid w + 0 then new_neurode else heap w a) = heap w"
    by (auto simp: fun_eq_iff)
  then show ?case by simp
next
  case (Suc n)
  let ?m = "next_nid w"
  let ?w1 = "w\<lparr>heap := (heap w)(?m := new_neurode), next_nid := Suc ?m\<rparr>"
  have l: "[?m ..< ?m + Suc n] = ?m # [Suc ?m ..< Suc ?m + n]"
    by (simp add: upt_conv_Cons del: upt_Suc)
  have "make_layer (Suc n) w =
          (?m # [Suc ?m ..< Suc ?m + n],
           ?w1\<lparr>heap := (\<lambda>a. if Suc ?m \<le> a \<and> a < Suc ?m + n then new_neurode else heap ?w1 a),
               next_nid := Suc ?m + n\<rparr>)"
    by (simp add: new_node_def Suc.IH del: upt_Suc)
  also have "\<dots> = ([?m ..< ?m + Suc n],
      w\<lparr>heap := (\<lambda>a. if ?m \<le> a \<and> a < ?m + Suc n then new_neurode else heap w a),
        next_nid := ?m + Suc n\<rparr>)"
    unfolding l by (auto simp: fun_eq_iff)
  finally show ?case .
qed

lemma LayerList_init_ok:
  assumes "1 \<le> inputs" "1 \<le> outputs"
  shows "LayerList_init inputs outputs s0 =
     Return ()
       (s0\<lparr>cells := (cells s0)
               (Suc (fresh s0) :=
                   \<lparr>data = fst (make_layer (nat outputs) (snd (make_layer (nat inputs) (net s0)))),
                    nxt = None, prv = Some (fresh s0)\<rparr>,
                fresh s0 := \<lparr>data = fst (make_layer (nat inputs) (net s0)),
                              nxt = Some (Suc (fresh s0)), prv = None\<rparr>),
            fresh := Suc (Suc (fresh s0)),
            head := Some (fresh s0), tail := Some (Suc (fresh s0)), curr := Some (fresh s0),
            net := built_net inputs outputs (net s0)\<rparr>)"
  using assms
  by (simp add: LayerList_init_def DoublyLinkedList_init_def add_to_head_def add_after_current_def
        link_with_next_def new_DLLNode_def set_nxt_def set_prv_def Let_def built_net_def
        split: prod.splits)

lemma built_net_facts:
  fixes w :: world and inputs outputs :: int
  assumes ins_def: "ins = [next_nid w ..< next_nid w + nat inputs]"
    and outs_def: "outs = [next_nid w + nat inputs ..< next_nid w + nat inputs + nat outputs]"
  shows "fst (make_layer (nat inputs) w) = ins"
    and "fst (make_layer (nat outputs) (snd (make_layer (nat inputs) w))) = outs"
    and "\<And>i. i \<in> set ins \<Longrightarrow> neighbors (heap (built_net inputs outputs w) i) DOWNSTREAM = outs"
    and "\<And>i. i \<in> set ins \<Longrightarrow>
           reference_value (heap (built_net inputs outputs w) i) DOWNSTREAM = 2 ^ length outs - 1"
    and "\<And>j. j \<in> set outs \<Longrightarrow> neighbors (heap (built_net inputs outputs w) j) UPSTREAM = ins"
    and "\<And>j. j \<in> set outs \<Longrightarrow>
           reference_value (heap (built_net inputs outputs w) j) UPSTREAM = 2 ^ length ins - 1"
    and "\<And>i j. i \<in> set ins \<Longrightarrow> j \<in> set outs \<Longrightarrow>
           \<exists>k. weights (heap (built_net inputs outputs w) j) i = Some (rand_src w k)"
proof -
  show i: "fst (make_layer (nat inputs) w) = ins"
    by (simp add: make_layer_spec ins_def)
  show o: "fst (make_layer (nat outputs) (snd (make_layer (nat inputs) w))) = outs"
    by (simp add: make_layer_spec outs_def)
  have b: "built_net inputs outputs w =
      reset_each outs ins UPSTREAM
        (reset_each ins outs DOWNSTREAM (snd (make_layer (nat outputs) (snd (make_layer (nat inputs) w)))))"
    by (simp add: built_net_def Let_def i o)
  have disj: "\<And>x. x \<in> set ins \<Longrightarrow> x \<notin> set outs"
    by (auto simp: ins_def outs_def)
  show "\<And>i. i \<in> set ins \<Longrightarrow> neighbors (heap (built_net inputs outputs w) i) DOWNSTREAM = outs"
    by (simp add: b reset_each_neighbors)
  show "\<And>i. i \<in> set ins \<Longrightarrow>
           reference_value (heap (built_net inputs outputs w) i) DOWNSTREAM = 2 ^ length outs - 1"
    by (simp add: b reset_each_reference)
  show "\<And>j. j \<in> set outs \<Longrightarrow> neighbors (heap (built_net inputs outputs w) j) UPSTREAM = ins"
    by (simp add: b reset_each_neighbors)
  show "\<And>j. j \<in> set outs \<Longrightarrow>
           reference_value (heap (built_net inputs outputs w) j) UPSTREAM = 2 ^ length ins - 1"
    by (simp add: b reset_each_reference)
  show "\<And>i j. i \<in> set ins \<Longrightarrow> j \<in> set outs \<Longrightarrow>
           \<exists>k. weights (heap (built_net inputs outputs w) j) i = Some (rand_src w k)"
  proof -
    fix i j assume "i \<in> set ins" "j \<in> set outs"
    let ?w = "reset_each ins outs DOWNSTREAM (snd (make_layer (nat outputs) (snd (make_layer (nat inputs) w))))"
    from reset_each_weights_fresh [OF \<open>j \<in> set outs\<close> \<open>i \<in> set ins\<close>, of ?w]
    obtain k where "weights (heap (reset_each outs ins UPSTREAM ?w) j) i = Some (rand_src ?w k)"
      by blast
    moreover have "rand_src ?w = rand_src w"
      by (simp add: reset_each_frame make_layer_spec)
    ultimately show "\<exists>k. weights (heap (built_net inputs outputs w) j) i = Some (rand_src w k)"
      unfolding b by auto
  qed
qed

text \<open>
  C3. Constructing a topology with \<open>inputs \<ge> 1\<close> and \<open>outputs \<ge> 1\<close>, with a generator whose
  draws lie in \<open>[0, 1)\<close>, returns a list of exactly two cells, the input layer at the head
  and the output layer at the tail, of \<open>inputs\<close> and \<open>outputs\<close> distinct nodes; every input
  node lists the output layer as its DOWNSTREAM neighbours and every output node lists the
  input layer as its UPSTREAM neighbours; each output node's weight map gives every input
  node a weight in \<open>[0, 1)\<close>. With \<open>inputs < 1\<close> or \<open>outputs < 1\<close> the constructor raises the
  construction fault (\<^verbatim>\<open>ValueError\<close> in the code) right after the list fields were set to
  \<open>None\<close>: the list is empty and the store of neurodes is untouched.
\<close>

theorem LayerList_init_contract:
  "(1 \<le> inputs \<and> 1 \<le> outputs \<and> (\<forall>k. 0 \<le> rand_src (net s0) k \<and> rand_src (net s0) k < 1) \<longrightarrow>
      (\<exists>s ins outs.
          LayerList_init inputs outputs s0 = Return () s \<and>
          list_shape s [fresh s0, Suc (fresh s0)] \<and>
          head s = Some (fresh s0) \<and> tail s = Some (Suc (fresh s0)) \<and>
          data (cells s (fresh s0)) = ins \<and> data (cells s (Suc (fresh s0))) = outs \<and>
          int (length ins) = inputs \<and> int (length outs) = outputs \<and> distinct (ins @ outs) \<and>
          (\<forall>i\<in>set ins. neighbors (heap (net s) i) DOWNSTREAM = outs) \<and>
          (\<forall>j\<in>set outs. neighbors (heap (net s) j) UPSTREAM = ins) \<and>
          (\<forall>j\<in>set outs. \<forall>i\<in>set ins.
              \<exists>wt. weights (heap (net s) j) i = Some wt \<and> 0 \<le> wt \<and> wt < 1))) \<and>
   (inputs < 1 \<or> outputs < 1 \<longrightarrow>
      LayerList_init inputs outputs s0 = Raise ValueError (DoublyLinkedList_init s0) \<and>
      is_empty (DoublyLinkedList_init s0) \<and> net (DoublyLinkedList_init s0) = net s0)"
proof (intro conjI impI)
  assume a: "1 \<le> inputs \<and> 1 \<le> outputs \<and> (\<forall>k. 0 \<le> rand_src (net s0) k \<and> rand_src (net s0) k < 1)"
  define m where "m = next_nid (net s0)"
  define ins where "ins = [m ..< m + nat inputs]"
  define outs where "outs = [m + nat inputs ..< m + nat inputs + nat outputs]"
  define s where "s = s0\<lparr>cells := (cells s0)
               (Suc (fresh s0) := \<lparr>data = outs, nxt = None, prv = Some (fresh s0)\<rparr>,
                fresh s0 := \<lparr>data = ins, nxt = Some (Suc (fresh s0)), prv = None\<rparr>),
            fresh := Suc (Suc (fresh s0)),
            head := Some (fresh s0), tail := Some (Suc (fresh s0)), curr := Some (fresh s0),
            net := built_net inputs outputs (net s0)\<rparr>"
  note bf = built_net_facts [OF ins_def [unfolded m_def] outs_def [unfolded m_def]]
  have r: "LayerList_init inputs outputs s0 = Return () s"
    using a LayerList_init_ok [of inputs outputs s0] by (simp add: s_def bf(1,2))
  have sh: "list_shape s [fresh s0, Suc (fresh s0)]"
    by (simp add: list_shape_def s_def)
  have f: "head s = Some (fresh s0)" "tail s = Some (Suc (fresh s0))"
    "data (cells s (fresh s0)) = ins" "data (cells s (Suc (fresh s0))) = outs"
    "net s = built_net inputs outputs (net s0)"
    by (simp_all add: s_def)
  have len: "int (length ins) = inputs" "int (length outs) = outputs"
    using a by (simp_all add: ins_def outs_def)
  have d: "distinct (ins @ outs)"
    by (auto simp: ins_def outs_def)
  have n1: "\<forall>i\<in>set ins. neighbors (heap (net s) i) DOWNSTREAM = outs"
    using bf(3) by (simp add: f(5))
  have n2: "\<forall>j\<in>set outs. neighbors (heap (net s) j) UPSTREAM = ins"
    using bf(5) by (simp add: f(5))
  have wts: "\<forall>j\<in>set outs. \<forall>i\<in>set ins.
              \<exists>wt. weights (heap (net s) j) i = Some wt \<and> 0 \<le> wt \<and> wt < 1"
  proof (intro ballI)
    fix j i assume "j \<in> set outs" "i \<in> set ins"
    from bf(7) [OF this(2) this(1)] obtain k where
      "weights (heap (built_net inputs outputs (net s0)) j) i = Some (rand_src (net s0) k)" by blast
    with a show "\<exists>wt. weights (heap (net s) j) i = Some wt \<and> 0 \<le> wt \<and> wt < 1"
      by (simp add: f(5))
  qed
  from r sh f(1-4) len d n1 n2 wts
  show "\<exists>s ins outs.
          LayerList_init inputs outputs s0 = Return () s \<and>
          list_shape s [fresh s0, Suc (fresh s0)] \<and>
          head s = Some (fresh s0) \<and> tail s = Some (Suc (fresh s0)) \<and>
          data (cells s (fresh s0)) = ins \<and> data (cells s (Suc (fresh s0))) = outs \<and>
          int (length ins) = inputs \<and> int (length outs) = outputs \<and> distinct (ins @ outs) \<and>
          (\<forall>i\<in>set ins. neighbors (heap (net s) i) DOWNSTREAM = outs) \<and>
          (\<forall>j\<in>set outs. neighbors (heap (net s) j) UPSTREAM = ins) \<and>
          (\<forall>j\<in>set outs. \<forall>i\<in>set ins.
              \<exists>wt. weights (heap (net s) j) i = Some wt \<and> 0 \<le> wt \<and> wt < 1)"
    by blast
next
  assume "inputs < 1 \<or> outputs < 1"
  then show "LayerList_init inputs outputs s0 = Raise ValueError (DoublyLinkedList_init s0)"
    by (auto simp: LayerList_init_def Let_def)
next
  show "is_empty (DoublyLinkedList_init s0)"
    by (simp add: is_empty_def DoublyLinkedList_init_def)
next
  show "net (DoublyLinkedList_init s0) = net s0"
    by (simp add: DoublyLinkedList_init_def)
qed

lemma link_with_next_eq:
  "curr s = Some c \<Longrightarrow> nxt (cells s c) = Some n \<Longrightarrow>
   link_with_next s = Return () (s\<lparr>net := relinked (data (cells s c)) (data (cells s n)) (net s)\<rparr>)"
  by (simp add: link_with_next_def relinked_def Let_def)

lemma add_layer_ok:
  assumes c: "curr s = Some c" and n: "nxt (cells s c) = Some n" and t: "tail s \<noteq> Some c"
    and d: "c \<noteq> n" "fresh s \<noteq> c" "fresh s \<noteq> n" and k: "0 \<le> k"
  shows "add_layer k s =
     Return ()
       (s\<lparr>cells := (cells s)
               (fresh s := \<lparr>data = fst (make_layer (nat k) (net s)), nxt = Some n, prv = Some c\<rparr>,
                n := (cells s n)\<lparr>prv := Some (fresh s)\<rparr>,
                c := (cells s c)\<lparr>nxt := Some (fresh s)\<rparr>),
            fresh := Suc (fresh s),
            net := relinked (fst (make_layer (nat k) (net s))) (data (cells s n))
                     (relinked (data (cells s c)) (fst (make_layer (nat k) (net s)))
                        (snd (make_layer (nat k) (net s))))\<rparr>)"
  using c n t d k
  by (simp add: add_layer_def add_after_current_def new_DLLNode_def set_nxt_def set_prv_def
        link_with_next_def move_forward_def move_backward_def relinked_def Let_def
        split: prod.splits)

lemma remove_layer_ok:
  assumes c: "curr s = Some c" and h: "nxt (cells s c) = Some h" and n: "nxt (cells s h) = Some n"
    and t: "tail s \<noteq> Some c" "tail s \<noteq> Some h"
    and d: "c \<noteq> h" "h \<noteq> n" "c \<noteq> n"
  shows "remove_layer s =
     Return ()
       (s\<lparr>cells := (cells s)
               (c := (cells s c)\<lparr>nxt := Some n\<rparr>,
                n := (cells s n)\<lparr>prv := Some c\<rparr>),
            net := relinked (data (cells s c)) (data (cells s n)) (net s)\<rparr>)"
  using c h n t d
  by (simp add: remove_layer_def remove_after_current_def set_nxt_def set_prv_def
        link_with_next_def relinked_def Let_def)

lemma relinked_neighbors:
  "neighbors (heap (relinked upper lower w) a) DOWNSTREAM =
     (if a \<in> set upper then lower else neighbors (heap w a) DOWNSTREAM)"
  "neighbors (heap (relinked upper lower w) a) UPSTREAM =
     (if a \<in> set lower then upper else neighbors (heap w a) UPSTREAM)"
  by (simp_all add: relinked_def reset_each_neighbors)

lemma relinked_reference:
  "reference_value (heap (relinked upper lower w) a) DOWNSTREAM =
     (if a \<in> set upper then 2 ^ length lower - 1 else reference_value (heap w a) DOWNSTREAM)"
  "reference_value (heap (relinked upper lower w) a) UPSTREAM =
     (if a \<in> set lower then 2 ^ length upper - 1 else reference_value (heap w a) UPSTREAM)"
  by (simp_all add: relinked_def reset_each_reference)

lemma relinked_frame:
  "reporting_nodes (heap (relinked upper lower w) a) = reporting_nodes (heap w a)"
  "nvalue (heap (relinked upper lower w) a) = nvalue (heap w a)"
  "delta (heap (relinked upper lower w) a) = delta (heap w a)"
  "rand_src (relinked upper lower w) = rand_src w"
  "next_nid (relinked upper lower w) = next_nid w"
  "learning_rate (relinked upper lower w) = learning_rate w"
  "adjust_log (relinked upper lower w) = adjust_log w"
  by (simp_all add: relinked_def reset_each_same reset_each_frame)

lemma relinked_pos: "rand_pos w \<le> rand_pos (relinked upper lower w)"
  unfolding relinked_def
  by (rule order_trans [OF reset_each_pos reset_each_pos])

lemma relinked_weights:
  assumes "b \<in> set lower" "a \<in> set upper"
  shows "\<exists>k. rand_pos w \<le> k \<and> weights (heap (relinked upper lower w) b) a = Some (rand_src w k)"
proof -
  let ?w = "reset_each upper lower DOWNSTREAM w"
  from reset_each_weights_fresh [OF assms, of ?w] obtain k where
    k: "rand_pos ?w \<le> k" "weights (heap (reset_each lower upper UPSTREAM ?w) b) a = Some (rand_src ?w k)"
    by blast
  have "rand_pos w \<le> rand_pos ?w" by (rule reset_each_pos)
  with k have "rand_pos w \<le> k \<and> weights (heap (relinked upper lower w) b) a = Some (rand_src w k)"
    by (simp add: relinked_def reset_each_frame)
  then show ?thesis by blast
qed

lemma shape_cursor:
  assumes sh: "list_shape s as" and c: "curr s = Some c" and t: "tail s \<noteq> Some c"
  shows "\<exists>xs n ys. as = xs @ c # n # ys \<and> nxt (cells s c) = Some n \<and> prv (cells s n) = Some c"
proof -
  from sh c have "c \<in> set as" by (simp add: list_shape_def)
  then obtain xs zs where as: "as = xs @ c # zs" by (auto simp: in_set_conv_decomp)
  from sh as have sh': "list_shape s (xs @ c # zs)" by simp
  from shape_position(4) [OF sh'] t have "zs \<noteq> []" by simp
  then obtain n ys where zs: "zs = n # ys" by (cases zs) auto
  from shape_position(2) [OF sh'] zs have nx: "nxt (cells s c) = Some n" by simp
  from sh as zs have "list_shape s ((xs @ [c]) @ n # ys)" by simp
  from shape_position(1) [OF this] have "prv (cells s n) = Some c" by simp
  with as zs nx show ?thesis by blast
qed

lemma put_same [simp]: "put a (heap w a) w = w"
  by (simp add: put_def)

lemma heap_put: "heap (put a n w) b = (if b = a then n else heap w b)"
  by (simp add: put_def)






lemma shape_fresh: "list_shape s as \<Longrightarrow> a \<in> set as \<Longrightarrow> a < fresh s"
  by (simp add: list_shape_def list_all_iff)

lemma shape_tail_in: "list_shape s as \<Longrightarrow> tail s = Some t \<Longrightarrow> t \<in> set as"
  by (auto simp: list_shape_def split: if_splits)


lemma add_layer_Return:
  assumes "add_layer k s = Return () s1"
  shows "curr s \<noteq> tail s \<and> 0 \<le> k \<and> (\<exists>c. curr s = Some c)"
proof -
  have 1: "curr s \<noteq> tail s" using assms by (auto simp: add_layer_def split: if_splits)
  have 2: "0 \<le> k" using assms 1 by (auto simp: add_layer_def split: if_splits)
  have 3: "\<exists>c. curr s = Some c"
  proof (cases "curr s")
    case None
    with assms 1 2 show ?thesis
      by (simp add: add_layer_def add_after_current_def split: prod.splits)
  next
    case (Some c)
    then show ?thesis by blast
  qed
  from 1 2 3 show ?thesis by blast
qed

text \<open>
  C6. From a well-shaped list on which \<^verbatim>\<open>add_layer(k)\<close> returns, \<^verbatim>\<open>remove_layer()\<close> called
  next returns as well: the cursor, head, tail and every cell of the list are as before
  \<^verbatim>\<open>add_layer\<close>; every node of the cursor layer lists the original following layer as its
  DOWNSTREAM neighbours and every node of that layer lists the cursor layer as its
  UPSTREAM neighbours (with the matching reference values), which is the adjacency the
  two layers had if they were linked before. Each weight on these edges is a draw of the
  generator made after \<^verbatim>\<open>add_layer\<close> returned.
\<close>

theorem add_then_remove_layer:
  assumes sh: "list_shape s as" and add: "add_layer k s = Return () s1"
  shows "\<exists>c n s2. curr s = Some c \<and> nxt (cells s c) = Some n \<and>
     remove_layer s1 = Return () s2 \<and>
     curr s2 = Some c \<and> head s2 = head s \<and> tail s2 = tail s \<and> list_shape s2 as \<and>
     (\<forall>a\<in>set as. cells s2 a = cells s a) \<and>
     (\<forall>a\<in>set (data (cells s c)).
         neighbors (heap (net s2) a) DOWNSTREAM = data (cells s n) \<and>
         reference_value (heap (net s2) a) DOWNSTREAM = 2 ^ length (data (cells s n)) - 1) \<and>
     (\<forall>b\<in>set (data (cells s n)).
         neighbors (heap (net s2) b) UPSTREAM = data (cells s c) \<and>
         reference_value (heap (net s2) b) UPSTREAM = 2 ^ length (data (cells s c)) - 1) \<and>
     (\<forall>b\<in>set (data (cells s n)). \<forall>a\<in>set (data (cells s c)).
         \<exists>j. rand_pos (net s1) \<le> j \<and> weights (heap (net s2) b) a = Some (rand_src (net s) j)) \<and>
     ((\<forall>a\<in>set (data (cells s c)). neighbors (heap (net s) a) DOWNSTREAM = data (cells s n)) \<and>
      (\<forall>b\<in>set (data (cells s n)). neighbors (heap (net s) b) UPSTREAM = data (cells s c)) \<longrightarrow>
      (\<forall>a\<in>set (data (cells s c)).
          neighbors (heap (net s2) a) DOWNSTREAM = neighbors (heap (net s) a) DOWNSTREAM) \<and>
      (\<forall>b\<in>set (data (cells s n)).
          neighbors (heap (net s2) b) UPSTREAM = neighbors (heap (net s) b) UPSTREAM))"
proof -
  from add_layer_Return [OF add] obtain c where
    ct: "curr s \<noteq> tail s" and k: "0 \<le> k" and c: "curr s = Some c" by blast
  from ct c have t: "tail s \<noteq> Some c" by auto
  from shape_cursor [OF sh c t] obtain xs n ys where
    as: "as = xs @ c # n # ys" and n: "nxt (cells s c) = Some n"
    and pn: "prv (cells s n) = Some c" by blast
  from sh as have cn: "c \<noteq> n" by (auto simp: list_shape_def)
  let ?h = "fresh s"
  from shape_fresh [OF sh] have lt: "\<And>a. a \<in> set as \<Longrightarrow> a \<noteq> ?h" by auto
  from lt as have fr: "?h \<noteq> c" "?h \<noteq> n" by auto
  define H where "H = fst (make_layer (nat k) (net s))"
  define w1 where "w1 = relinked H (data (cells s n))
                     (relinked (data (cells s c)) H (snd (make_layer (nat k) (net s))))"
  have s1: "s1 = s\<lparr>cells := (cells s)
               (?h := \<lparr>data = H, nxt = Some n, prv = Some c\<rparr>,
                n := (cells s n)\<lparr>prv := Some ?h\<rparr>,
                c := (cells s c)\<lparr>nxt := Some ?h\<rparr>),
            fresh := Suc ?h, net := w1\<rparr>"
    using add_layer_ok [OF c n t cn fr k] add by (simp add: H_def w1_def)
  have t1: "tail s1 \<noteq> Some c" "tail s1 \<noteq> Some ?h"
  proof -
    show "tail s1 \<noteq> Some c" using t by (simp add: s1)
    show "tail s1 \<noteq> Some ?h"
    proof
      assume "tail s1 = Some ?h"
      then have "tail s = Some ?h" by (simp add: s1)
      from shape_tail_in [OF sh this] lt show False by blast
    qed
  qed
  have p1: "curr s1 = Some c" "nxt (cells s1 c) = Some ?h" "nxt (cells s1 ?h) = Some n"
    using c cn fr by (simp_all add: s1)
  define s2 where "s2 = s1\<lparr>cells := (cells s1)
               (c := (cells s1 c)\<lparr>nxt := Some n\<rparr>,
                n := (cells s1 n)\<lparr>prv := Some c\<rparr>),
            net := relinked (data (cells s1 c)) (data (cells s1 n)) (net s1)\<rparr>"
  have fr': "c \<noteq> ?h" "?h \<noteq> n" using fr by auto
  have r: "remove_layer s1 = Return () s2"
    using remove_layer_ok [OF p1 t1 fr'(1) fr'(2) cn] by (simp add: s2_def)
  have dat: "data (cells s1 c) = data (cells s c)" "data (cells s1 n) = data (cells s n)"
    using cn fr by (simp_all add: s1)
  have net2: "net s2 = relinked (data (cells s c)) (data (cells s n)) w1"
    by (simp add: s2_def dat) (simp add: s1)
  have cells2: "\<forall>a\<in>set as. cells s2 a = cells s a"
  proof
    fix a assume a: "a \<in> set as"
    with lt have ah: "a \<noteq> ?h" by blast
    show "cells s2 a = cells s a"
      using ah cn fr n pn by (simp add: s2_def s1)
  qed
  have hd2: "curr s2 = Some c" "head s2 = head s" "tail s2 = tail s" "fresh s2 = Suc ?h"
    using c by (simp_all add: s2_def s1)
  have sh2: "list_shape s2 as"
  proof -
    from sh have d: "distinct as" and ch: "chain (cells s) (head s) as"
      and bl: "back_links (cells s) None as"
      and tl: "tail s = (if as = [] then None else Some (last as))"
      by (simp_all add: list_shape_def)
    have "chain (cells s2) (head s) as = chain (cells s) (head s) as"
      using cells2 by (intro chain_cong) simp
    with ch have ch2: "chain (cells s2) (head s2) as" by (simp add: hd2)
    have "back_links (cells s2) None as = back_links (cells s) None as"
      using cells2 by (intro back_links_cong) simp
    with bl have bl2: "back_links (cells s2) None as" by simp
    have cu: "c \<in> set as" using as by simp
    have "list_all (\<lambda>a. a < fresh s2) as"
      using shape_fresh [OF sh] by (auto simp: hd2 list_all_iff less_Suc_eq)
    with d ch2 bl2 tl cu show ?thesis
      by (simp add: list_shape_def hd2)
  qed
  have n1: "\<forall>a\<in>set (data (cells s c)).
         neighbors (heap (net s2) a) DOWNSTREAM = data (cells s n) \<and>
         reference_value (heap (net s2) a) DOWNSTREAM = 2 ^ length (data (cells s n)) - 1"
    by (simp add: net2 relinked_neighbors relinked_reference)
  have n2: "\<forall>b\<in>set (data (cells s n)).
         neighbors (heap (net s2) b) UPSTREAM = data (cells s c) \<and>
         reference_value (heap (net s2) b) UPSTREAM = 2 ^ length (data (cells s c)) - 1"
    by (simp add: net2 relinked_neighbors relinked_reference)
  have src: "rand_src w1 = rand_src (net s)"
    by (simp add: w1_def relinked_frame make_layer_spec)
  have nets1: "net s1 = w1" by (simp add: s1)
  have wts: "\<forall>b\<in>set (data (cells s n)). \<forall>a\<in>set (data (cells s c)).
         \<exists>j. rand_pos (net s1) \<le> j \<and> weights (heap (net s2) b) a = Some (rand_src (net s) j)"
  proof (intro ballI)
    fix b a assume "b \<in> set (data (cells s n))" "a \<in> set (data (cells s c))"
    from relinked_weights [OF this, of w1] src
    show "\<exists>j. rand_pos (net s1) \<le> j \<and> weights (heap (net s2) b) a = Some (rand_src (net s) j)"
      by (simp add: net2 nets1)
  qed
  have prior: "(\<forall>a\<in>set (data (cells s c)). neighbors (heap (net s) a) DOWNSTREAM = data (cells s n)) \<and>
      (\<forall>b\<in>set (data (cells s n)). neighbors (heap (net s) b) UPSTREAM = data (cells s c)) \<longrightarrow>
      (\<forall>a\<in>set (data (cells s c)).
          neighbors (heap (net s2) a) DOWNSTREAM = neighbors (heap (net s) a) DOWNSTREAM) \<and>
      (\<forall>b\<in>set (data (cells s n)).
          neighbors (heap (net s2) b) UPSTREAM = neighbors (heap (net s) b) UPSTREAM)"
    using n1 n2 by simp
  from c n r hd2(1-3) sh2 cells2 n1 n2 wts prior show ?thesis by blast
qed

lemma unit_topology_init:
  "LayerList_init 1 1 (blank_LayerList (\<lambda>_. 0)) = Return () unit_topology"
  using LayerList_init_ok [of 1 1 "blank_LayerList (\<lambda>_. 0)"]
  by (simp add: unit_topology_def)

lemma unit_topology_list:
  "list_shape unit_topology [0, 1]"
  "head unit_topology = Some 0" "tail unit_topology = Some 1" "curr unit_topology = Some 0"
  "fresh unit_topology = 2"
  "data (cells unit_topology 0) = [0]" "data (cells unit_topology (Suc 0)) = [1]"
  "nxt (cells unit_topology 0) = Some 1"
  "net unit_topology = built_net 1 1 (initial_world (\<lambda>_. 0))"
  using LayerList_init_ok [of 1 1 "blank_LayerList (\<lambda>_. 0)"]
  by (simp_all add: unit_topology_def blank_LayerList_def list_shape_def make_layer_spec
        initial_world_def numeral_2_eq_2)

lemma unit_topology_net:
  "neighbors (heap (net unit_topology) 0) DOWNSTREAM = [1]"
  "neighbors (heap (net unit_topology) (Suc 0)) UPSTREAM = [0]"
  "reference_value (heap (net unit_topology) 0) DOWNSTREAM = 1"
  "reference_value (heap (net unit_topology) (Suc 0)) UPSTREAM = 1"
  "weights (heap (net unit_topology) (Suc 0)) 0 = Some 0"
proof -
  have i: "[0] = [next_nid (initial_world (\<lambda>_. 0)) ..< next_nid (initial_world (\<lambda>_. 0)) + nat 1]"
    by (simp add: initial_world_def)
  have o: "[Suc 0] = [next_nid (initial_world (\<lambda>_. 0)) + nat 1 ..<
                   next_nid (initial_world (\<lambda>_. 0)) + nat 1 + nat 1]"
    by (simp add: initial_world_def)
  note bf = built_net_facts [OF i o]
  show "neighbors (heap (net unit_topology) 0) DOWNSTREAM = [1]"
    using bf(3) [of 0] by (simp add: unit_topology_list(9))
  show "neighbors (heap (net unit_topology) (Suc 0)) UPSTREAM = [0]"
    using bf(5) [of 1] by (simp add: unit_topology_list(9))
  show "reference_value (heap (net unit_topology) 0) DOWNSTREAM = 1"
    using bf(4) [of 0] by (simp add: unit_topology_list(9))
  show "reference_value (heap (net unit_topology) (Suc 0)) UPSTREAM = 1"
    using bf(6) [of 1] by (simp add: unit_topology_list(9))
  show "weights (heap (net unit_topology) (Suc 0)) 0 = Some 0"
    using bf(7) [of 0 1] by (simp add: unit_topology_list(9) initial_world_def)
qed

theorem LayerList_init_contract_witness:
  "(1::int) \<le> 1 \<and> rand_src (net (blank_LayerList (\<lambda>_. 0))) 0 = 0 \<and>
   LayerList_init 1 1 (blank_LayerList (\<lambda>_. 0)) = Return () unit_topology \<and>
   list_shape unit_topology [0, 1] \<and>
   data (cells unit_topology 0) = [0] \<and> data (cells unit_topology 1) = [1] \<and>
   neighbors (heap (net unit_topology) 0) DOWNSTREAM = [1] \<and>
   neighbors (heap (net unit_topology) 1) UPSTREAM = [0] \<and>
   weights (heap (net unit_topology) 1) 0 = Some 0 \<and>
   (0::int) < 1 \<and>
   LayerList_init 0 1 (blank_LayerList (\<lambda>_. 0)) =
     Raise ValueError (DoublyLinkedList_init (blank_LayerList (\<lambda>_. 0))) \<and>
   is_empty (DoublyLinkedList_init (blank_LayerList (\<lambda>_. 0)))"
  using LayerList_init_contract [of 1 1 "blank_LayerList (\<lambda>_. 0)"]
    LayerList_init_contract [of 0 1 "blank_LayerList (\<lambda>_. 0)"]
    unit_topology_init unit_topology_list unit_topology_net
  by (simp add: blank_LayerList_def initial_world_def)





section \<open>One presentation on a single edge\<close>

lemma single_edge_forward:
  assumes "i \<noteq> j"
    and "neighbors (heap W i) DOWNSTREAM = [j]"
    and "neighbors (heap W j) UPSTREAM = [i]" and "neighbors (heap W j) DOWNSTREAM = []"
    and "reference_value (heap W j) UPSTREAM = 1"
    and "reporting_nodes (heap W j) UPSTREAM = 0"
    and "weights (heap W j) i = Some wt"
  shows "set_input (Suc k) i x W =
     Return ()
       (put j ((heap W j)\<lparr>nvalue := sigmoid (wt * x)\<rparr>) (put i ((heap W i)\<lparr>nvalue := x\<rparr>) W))"
  using assms
  by (simp add: set_input_def Let_def heap_put check_in_def calculate_value_def weighted_sum_def
      get_weight_def put_def fun_upd_twist fun_upd_idem)

lemma single_edge_backward:
  assumes "i \<noteq> j"
    and "neighbors (heap W i) DOWNSTREAM = [j]" and "neighbors (heap W i) UPSTREAM = []"
    and "neighbors (heap W j) UPSTREAM = [i]"
    and "reference_value (heap W i) DOWNSTREAM = 1"
    and "reporting_nodes (heap W i) DOWNSTREAM = 0"
    and "weights (heap W j) i = Some wt"
  shows "\<exists>W'. set_expected (Suc k) j t W = Return () W' \<and>
     weights (heap W' j) i =
       Some (wt + (5 / 100) * ((t - nvalue (heap W j)) * (nvalue (heap W j) * (1 - nvalue (heap W j)))) *
                    nvalue (heap W i)) \<and>
     adjust_log W' = adjust_log W @
        [(i, j, (5 / 100) * ((t - nvalue (heap W j)) * (nvalue (heap W j) * (1 - nvalue (heap W j)))) *
                    nvalue (heap W i))] \<and>
     delta (heap W' j) = (t - nvalue (heap W j)) * (nvalue (heap W j) * (1 - nvalue (heap W j))) \<and>
     learning_rate W' = learning_rate W"
  using assms
  by (simp add: set_expected_def calculate_delta_def Let_def heap_put check_in_def
      sigmoid_derivative_def update_weights_def adjust_weights_def put_def fun_upd_idem)

lemma built_net_relinked:
  "built_net inputs outputs w =
     relinked (fst (make_layer (nat inputs) w))
       (fst (make_layer (nat outputs) (snd (make_layer (nat inputs) w))))
       (snd (make_layer (nat outputs) (snd (make_layer (nat inputs) w))))"
  by (simp add: built_net_def relinked_def Let_def)

lemma unit_topology_rest:
  "neighbors (heap (net unit_topology) 0) UPSTREAM = []"
  "neighbors (heap (net unit_topology) (Suc 0)) DOWNSTREAM = []"
  "reporting_nodes (heap (net unit_topology) a) sd = 0"
  "nvalue (heap (net unit_topology) a) = 0"
  "learning_rate (net unit_topology) = 5 / 100"
  "adjust_log (net unit_topology) = []"
  by (simp_all add: unit_topology_list(9) built_net_relinked relinked_neighbors relinked_frame
        make_layer_spec initial_world_def new_neurode_def)

text \<open>
  C1 says that in the network of one input node, one output node and one edge of weight
  \<open>w\<close>, \<^verbatim>\<open>back_propagate([t])\<close> changes the weight by \<open>learning_rate * (t - y) * y * (1 - y) * x\<close>
  with the settable class-wide \<open>learning_rate\<close>. The code does not: \<^verbatim>\<open>_update_weights\<close>
  multiplies by its own literal 0.05. The run below sets the learning rate to 1/2 on the
  network with \<open>w = 0\<close>, presents \<open>x = 1\<close> (so \<open>y = sigmoid 0 = 1/2\<close>) and the target \<open>t = 1\<close>:
  the weight moves by \<open>0.05 * (1 - 1/2) * 1/2 * (1 - 1/2) * 1 = 1/160\<close>, not by the
  \<open>1/2 * (1 - 1/2) * 1/2 * (1 - 1/2) * 1 = 1/16\<close> of the claim.
\<close>

theorem update_ignores_learning_rate:
  "get_learning_rate tuned_net = 1 / 2 \<and>
   weights (heap tuned_net 1) 0 = Some 0 \<and>
   set_input 1 0 1 tuned_net = Return () fed_net \<and>
   nvalue (heap fed_net 0) = 1 \<and> nvalue (heap fed_net 1) = 1 / 2 \<and>
   set_expected 1 1 1 fed_net = Return () trained_net \<and>
   weights (heap trained_net 1) 0 = Some (0 + (5 / 100) * (1 - 1 / 2) * (1 / 2) * (1 - 1 / 2) * 1) \<and>
   weights (heap trained_net 1) 0 \<noteq> Some (0 + (1 / 2) * (1 - 1 / 2) * (1 / 2) * (1 - 1 / 2) * 1) \<and>
   adjust_log trained_net = [(0, 1, (5 / 100) * (1 - 1 / 2) * (1 / 2) * (1 - 1 / 2) * 1)]"
proof -
  have one: "(1::nat) = Suc 0" by simp
  have sg: "sigmoid 0 = 1 / 2" by (simp add: sigmoid_def)
  have t: "heap tuned_net = heap (net unit_topology)" "adjust_log tuned_net = []"
    "get_learning_rate tuned_net = 1 / 2"
    by (simp_all add: tuned_net_def set_learning_rate_def get_learning_rate_def unit_topology_rest)
  have ne: "(0::nat) \<noteq> Suc 0" by simp
  have f: "set_input (Suc 0) 0 1 tuned_net =
     Return ()
       (put (Suc 0) ((heap tuned_net (Suc 0))\<lparr>nvalue := sigmoid (0 * 1)\<rparr>)
          (put 0 ((heap tuned_net 0)\<lparr>nvalue := 1\<rparr>) tuned_net))"
    by (rule single_edge_forward [OF ne]) (simp_all add: t unit_topology_net unit_topology_rest)
  then have fed: "fed_net = put (Suc 0) ((heap tuned_net (Suc 0))\<lparr>nvalue := 1 / 2\<rparr>)
          (put 0 ((heap tuned_net 0)\<lparr>nvalue := 1\<rparr>) tuned_net)"
    by (simp add: fed_net_def sg)
  have fv: "nvalue (heap fed_net 0) = 1" "nvalue (heap fed_net (Suc 0)) = 1 / 2"
    "adjust_log fed_net = []"
    by (simp_all add: fed heap_put t(2)) (simp add: put_def t(2))
  from single_edge_backward [of 0 "Suc 0" fed_net 0 0 1]
  obtain W' where b: "set_expected (Suc 0) (Suc 0) 1 fed_net = Return () W'"
    and wts: "weights (heap W' (Suc 0)) 0 =
       Some (0 + (5 / 100) * ((1 - nvalue (heap fed_net (Suc 0))) *
            (nvalue (heap fed_net (Suc 0)) * (1 - nvalue (heap fed_net (Suc 0))))) *
                    nvalue (heap fed_net 0))"
    and lg: "adjust_log W' = adjust_log fed_net @
        [(0, Suc 0, (5 / 100) * ((1 - nvalue (heap fed_net (Suc 0))) *
            (nvalue (heap fed_net (Suc 0)) * (1 - nvalue (heap fed_net (Suc 0))))) *
                    nvalue (heap fed_net 0))]"
    by (auto simp: fed heap_put t unit_topology_net unit_topology_rest)
  from b have tr: "trained_net = W'" by (simp add: trained_net_def)
  from f have f': "set_input (Suc 0) 0 1 tuned_net = Return () fed_net"
    by (simp add: fed_net_def)
  have w0: "weights (heap tuned_net (Suc 0)) 0 = Some 0"
    by (simp add: t unit_topology_net)
  from wts fv have wts': "weights (heap trained_net (Suc 0)) 0 = Some (1 / 160)"
    by (simp add: tr)
  from lg fv have lg': "adjust_log trained_net = [(0, Suc 0, 1 / 160)]"
    by (simp add: tr)
  from b have b': "set_expected (Suc 0) (Suc 0) 1 fed_net = Return () trained_net"
    by (simp add: tr)
  show ?thesis
    unfolding one using f' b' wts' lg' fv(1,2) t(3) w0
    by simp
qed


end
